theory Spec2Isabelle
  imports Main "HOL-Library.Sublist" "HOL-Library.Multiset" "HOL-Library.Word"
begin

section \<open>Python strings\<close>

text \<open>
  A Python \<open>str\<close> is a sequence of Unicode code points. The marker strings of the
  program contain letters beyond ASCII, so a text is a list of code points, each a
  natural number. \<open>cps\<close> reads an ASCII literal as such a list.
\<close>

type_synonym ustr = "nat list"

definition cps :: "string \<Rightarrow> ustr" where
  "cps s = map of_char s"

text \<open>
  \<open>sub in s\<close>: does \<open>sub\<close> occur in \<open>s\<close> as a contiguous run. The empty string
  occurs in every string.
\<close>

fun py_in :: "ustr \<Rightarrow> ustr \<Rightarrow> bool" where
  "py_in sub [] = (sub = [])"
| "py_in sub (c # cs) = (prefix sub (c # cs) \<or> py_in sub cs)"

text \<open>
  \<open>s.find(sub)\<close>: the lowest index at which \<open>sub\<close> occurs in \<open>s\<close>, and \<open>-1\<close> when it
  does not occur. \<open>find_from sub s i\<close> scans the rest \<open>s\<close> of the text, which starts at
  index \<open>i\<close>.
\<close>

fun find_from :: "ustr \<Rightarrow> ustr \<Rightarrow> nat \<Rightarrow> int" where
  "find_from sub [] i = (if sub = [] then int i else - 1)"
| "find_from sub (c # cs) i = (if prefix sub (c # cs) then int i else find_from sub cs (Suc i))"

definition py_find :: "ustr \<Rightarrow> ustr \<Rightarrow> int" where
  "py_find s sub = find_from sub s 0"

text \<open>
  Slices \<open>s[a:b]\<close> and \<open>s[a:]\<close>. A negative bound counts from the end, every bound is
  clamped to the string, and a slice whose start is not below its end is empty.
\<close>

definition slice_bound :: "ustr \<Rightarrow> int \<Rightarrow> nat" where
  "slice_bound s i =
     (let n = int (length s)
      in if i < 0 then nat (max 0 (i + n)) else nat (min i n))"

definition py_slice :: "ustr \<Rightarrow> int \<Rightarrow> int \<Rightarrow> ustr" where
  "py_slice s a b =
     (let lo = slice_bound s a; hi = slice_bound s b
      in take (hi - lo) (drop lo s))"

definition py_slice_from :: "ustr \<Rightarrow> int \<Rightarrow> ustr" where
  "py_slice_from s a = drop (slice_bound s a) s"

text \<open>
  The characters that \<open>str.strip\<close> removes and that \<open>\s\<close> matches in a \<open>str\<close>
  pattern: the code points Python counts as white space.
\<close>

definition is_space :: "nat \<Rightarrow> bool" where
  "is_space c =
     ((9 \<le> c \<and> c \<le> 13) \<or> (28 \<le> c \<and> c \<le> 32) \<or> c = 133 \<or> c = 160 \<or> c = 5760
      \<or> (8192 \<le> c \<and> c \<le> 8202) \<or> c = 8232 \<or> c = 8233 \<or> c = 8239 \<or> c = 8287
      \<or> c = 12288)"

definition strip :: "ustr \<Rightarrow> ustr" where
  "strip s = rev (dropWhile is_space (rev (dropWhile is_space s)))"

section \<open>The marker strings\<close>

definition rf_title :: ustr where
  "rf_title = cps ''Diagn'' @ [243] @ cps ''stico Fiscal na Receita Federal''"

definition pgfn_title :: ustr where
  "pgfn_title =
     cps ''Diagn'' @ [243] @ cps ''stico Fiscal na Procuradoria-Geral da Fazenda Nacional''"

definition em_parcelamento :: ustr where
  "em_parcelamento = cps ''EM PARCELAMENTO''"

definition base_indisponivel :: ustr where
  "base_indisponivel = cps ''BASE INDISPON'' @ [205] @ cps ''VEL''"

definition parcelamento :: ustr where
  "parcelamento = cps ''Parcelamento''"

definition pendencia_parcelamento :: ustr where
  "pendencia_parcelamento = cps ''Pend'' @ [234] @ cps ''ncia - Parcelamento''"

definition nao_detectadas :: ustr where
  "nao_detectadas =
     cps ''N'' @ [227] @ cps ''o foram detectadas pend'' @ [234]
       @ cps ''ncias/exigibilidades suspensas''"

section \<open>The classifier\<close>

text \<open>
  \<open>analyze_text\<close>, statement by statement. The two \<open>if\<close> statements after the
  primary marker tests assign \<open>False\<close> in their only branch.
\<close>

definition rf_section_of :: "ustr \<Rightarrow> ustr" where
  "rf_section_of text =
     (let rf_start = py_find text rf_title;
          pgfn_start = py_find text pgfn_title
      in if rf_start \<noteq> - 1 \<and> pgfn_start \<noteq> - 1 then py_slice text rf_start pgfn_start else [])"

definition pgfn_section_of :: "ustr \<Rightarrow> ustr" where
  "pgfn_section_of text =
     (let pgfn_start = py_find text pgfn_title
      in if pgfn_start \<noteq> - 1 then py_slice_from text pgfn_start else [])"

definition analyze_text :: "ustr \<Rightarrow> bool \<times> bool" where
  "analyze_text text =
     (let rf_section = rf_section_of text;
          pgfn_section = pgfn_section_of text;
          rf_parc = py_in em_parcelamento rf_section;
          rf_parc = (if \<not> rf_parc \<and> py_in base_indisponivel rf_section
                         \<and> py_in parcelamento rf_section
                     then False else rf_parc);
          pgfn_parc = py_in pendencia_parcelamento pgfn_section;
          pgfn_parc = (if \<not> pgfn_parc \<and> py_in nao_detectadas pgfn_section
                       then False else pgfn_parc)
      in (rf_parc, pgfn_parc))"

text \<open>The classifier that looks at the two primary markers only.\<close>

definition classify_primary :: "ustr \<Rightarrow> bool \<times> bool" where
  "classify_primary text =
     (py_in em_parcelamento (rf_section_of text),
      py_in pendencia_parcelamento (pgfn_section_of text))"

section \<open>The external libraries\<close>

text \<open>
  The program calls PyPDF2, pdfplumber and the Unicode tables of the interpreter. They
  are not part of the repository, so they are parameters of the model, collected in one
  record:
  \<^item> \<open>unicode_decimal\<close>: the decimal digits beyond \<open>0\<close>..\<open>9\<close> that \<open>\d\<close> matches in a
    \<open>str\<close> pattern;
  \<^item> \<open>str_lower\<close>: \<open>str.lower\<close>;
  \<^item> \<open>PdfReader\<close> and \<open>pdfplumber_open\<close>: what each library makes of the bytes of a
    file. \<open>Inl e\<close> is the exception \<open>e\<close> raised on opening the document; otherwise
    the pages in order, each page being the outcome of its \<open>extract_text()\<close>: an
    exception, \<open>None\<close>, or the text.
  The exceptions \<open>'e\<close> are the instances of \<open>Exception\<close> that the libraries raise.
\<close>

type_synonym bytes = "8 word list"

type_synonym 'e page = "'e + ustr option"

record 'e pylib =
  unicode_decimal :: "nat \<Rightarrow> bool"
  str_lower :: "ustr \<Rightarrow> ustr"
  PdfReader :: "bytes \<Rightarrow> 'e + 'e page list"
  pdfplumber_open :: "bytes \<Rightarrow> 'e + 'e page list"

definition is_digit :: "'e pylib \<Rightarrow> nat \<Rightarrow> bool" where
  "is_digit L c = ((48 \<le> c \<and> c \<le> 57) \<or> unicode_decimal L c)"

text \<open>\<open>x or ""\<close> for the result \<open>x\<close> of \<open>extract_text()\<close>.\<close>

definition or_empty :: "ustr option \<Rightarrow> ustr" where
  "or_empty x = (case x of None \<Rightarrow> [] | Some t \<Rightarrow> t)"

section \<open>The regular expression\<close>

text \<open>
  The pattern of the program uses literals, character classes, the greedy \<open>*\<close> and
  \<open>+\<close> on a character class, and groups. A pattern is a list of items: \<open>One p\<close>
  matches one character that satisfies \<open>p\<close>, \<open>Star p\<close> is the greedy star of such
  characters, and \<open>Mark\<close> records the position where a group begins.

  \<open>rx_match\<close> is the backtracking matcher at a fixed start: the star first tries to
  take one more character and falls back to taking none when the rest of the pattern
  fails. Its result is the rest of the text at each mark, followed by the rest of the
  text where the match ends.
\<close>

datatype rx_item = One "nat \<Rightarrow> bool" | Star "nat \<Rightarrow> bool" | Mark

fun rx_match :: "rx_item list \<Rightarrow> ustr \<Rightarrow> ustr list option" where
  "rx_match [] s = Some [s]"
| "rx_match (One p # r) [] = None"
| "rx_match (One p # r) (c # cs) = (if p c then rx_match r cs else None)"
| "rx_match (Mark # r) s = map_option ((#) s) (rx_match r s)"
| "rx_match (Star p # r) [] = rx_match r []"
| "rx_match (Star p # r) (c # cs) =
     (if p c
      then (case rx_match (Star p # r) cs of
              Some m \<Rightarrow> Some m
            | None \<Rightarrow> rx_match r (c # cs))
      else rx_match r (c # cs))"

text \<open>\<open>re.search\<close>: the match at the leftmost start position that has one.\<close>

fun rx_search :: "rx_item list \<Rightarrow> ustr \<Rightarrow> ustr list option" where
  "rx_search items [] = rx_match items []"
| "rx_search items (c # cs) =
     (case rx_match items (c # cs) of
        Some m \<Rightarrow> Some m
      | None \<Rightarrow> rx_search items cs)"

definition lit :: "ustr \<Rightarrow> rx_item list" where
  "lit s = map (\<lambda>c. One (\<lambda>x. x = c)) s"

text \<open>
  \<open>CNPJ:\s*(\d{2}\.\d{3}\.\d{3})\s*-\s*(.+)\<close>. The dot matches every character but
  the newline. Only the second group is read, so only its start is marked.
\<close>

definition cnpj_pattern :: "'e pylib \<Rightarrow> rx_item list" where
  "cnpj_pattern L =
     lit (cps ''CNPJ:'') @ [Star is_space]
     @ [One (is_digit L), One (is_digit L)] @ lit (cps ''.'')
     @ [One (is_digit L), One (is_digit L), One (is_digit L)] @ lit (cps ''.'')
     @ [One (is_digit L), One (is_digit L), One (is_digit L)]
     @ [Star is_space] @ lit (cps ''-'') @ [Star is_space]
     @ [Mark, One (\<lambda>c. c \<noteq> 10), Star (\<lambda>c. c \<noteq> 10)]"

text \<open>\<open>match.group(2)\<close> of the search, \<open>None\<close> when the search finds no match.\<close>

definition cnpj_search :: "'e pylib \<Rightarrow> ustr \<Rightarrow> ustr option" where
  "cnpj_search L text =
     (case rx_search (cnpj_pattern L) text of
        Some [g, e] \<Rightarrow> Some (take (length g - length e) g)
      | _ \<Rightarrow> None)"

section \<open>Reading one document\<close>

text \<open>The loop of \<open>extract_text_from_bytes\<close> over \<open>reader.pages\<close>.\<close>

fun read_pages :: "'e page list \<Rightarrow> ustr \<Rightarrow> 'e + ustr" where
  "read_pages [] text = Inr text"
| "read_pages (p # ps) text =
     (case p of
        Inl e \<Rightarrow> Inl e
      | Inr t \<Rightarrow> read_pages ps (text @ or_empty t @ [10]))"

definition extract_text_from_bytes :: "'e pylib \<Rightarrow> bytes \<Rightarrow> 'e + ustr" where
  "extract_text_from_bytes L file_bytes =
     (case PdfReader L file_bytes of
        Inl e \<Rightarrow> Inl e
      | Inr pages \<Rightarrow> read_pages pages [])"

text \<open>
  The loop over \<open>pdf.pages[:2]\<close>: it leaves at the first page whose text matches,
  and a page after that one is never extracted.
\<close>

fun name_loop :: "'e pylib \<Rightarrow> 'e page list \<Rightarrow> 'e + ustr option" where
  "name_loop L [] = Inr None"
| "name_loop L (p # ps) =
     (case p of
        Inl e \<Rightarrow> Inl e
      | Inr t \<Rightarrow>
          (case cnpj_search L (or_empty t) of
             Some g \<Rightarrow> Inr (Some (strip g))
           | None \<Rightarrow> name_loop L ps))"

definition extract_company_name_from_bytes :: "'e pylib \<Rightarrow> bytes \<Rightarrow> 'e + ustr option" where
  "extract_company_name_from_bytes L file_bytes =
     (case pdfplumber_open L file_bytes of
        Inl e \<Rightarrow> Inl e
      | Inr pages \<Rightarrow> name_loop L (take 2 pages))"

text \<open>
  The body of the \<open>try\<close> of \<open>process_pdf\<close>. It repeats the statements of
  \<open>extract_text_from_bytes\<close>, of \<open>extract_company_name_from_bytes\<close> (with
  \<open>break\<close> for \<open>return\<close>) and of \<open>analyze_text\<close> instead of calling them.
\<close>

definition process_pdf_body :: "'e pylib \<Rightarrow> bytes \<Rightarrow> 'e + (ustr option \<times> bool \<times> bool)" where
  "process_pdf_body L file_bytes =
     (case PdfReader L file_bytes of
        Inl e \<Rightarrow> Inl e
      | Inr pages \<Rightarrow>
     (case read_pages pages [] of
        Inl e \<Rightarrow> Inl e
      | Inr text \<Rightarrow>
     (case pdfplumber_open L file_bytes of
        Inl e \<Rightarrow> Inl e
      | Inr pdf_pages \<Rightarrow>
     (case name_loop L (take 2 pdf_pages) of
        Inl e \<Rightarrow> Inl e
      | Inr empresa \<Rightarrow>
          (let rf_start = py_find text rf_title;
               pgfn_start = py_find text pgfn_title;
               rf_section = (if rf_start \<noteq> - 1 \<and> pgfn_start \<noteq> - 1
                             then py_slice text rf_start pgfn_start else []);
               pgfn_section = (if pgfn_start \<noteq> - 1 then py_slice_from text pgfn_start else []);
               rf_parc = py_in em_parcelamento rf_section;
               rf_parc = (if \<not> rf_parc \<and> py_in base_indisponivel rf_section
                              \<and> py_in parcelamento rf_section
                          then False else rf_parc);
               pgfn_parc = py_in pendencia_parcelamento pgfn_section;
               pgfn_parc = (if \<not> pgfn_parc \<and> py_in nao_detectadas pgfn_section
                            then False else pgfn_parc)
           in Inr (empresa, rf_parc, pgfn_parc))))))"

text \<open>
  \<open>process_pdf\<close>: the \<open>except Exception\<close> clause turns every exception of the body
  into the result \<open>(None, False, False)\<close>. The message it shows and the cache
  around the function do not change the value returned.
\<close>

definition process_pdf :: "'e pylib \<Rightarrow> bytes \<Rightarrow> ustr option \<times> bool \<times> bool" where
  "process_pdf L file_bytes =
     (case process_pdf_body L file_bytes of
        Inl e \<Rightarrow> (None, False, False)
      | Inr r \<Rightarrow> r)"

section \<open>Filtering the results\<close>

record result =
  empresa :: ustr
  rf :: bool
  pgfn :: bool
  filename :: ustr

definition filter_results :: "'e pylib \<Rightarrow> result list \<Rightarrow> ustr list \<Rightarrow> result list" where
  "filter_results L results search_terms =
     (if search_terms = [] then results
      else filter (\<lambda>r. list_ex (\<lambda>term. py_in (str_lower L term) (str_lower L (empresa r)))
                          search_terms) results)"

section \<open>The batch\<close>

text \<open>
  The uploaded archive is the list of its entries in the order of \<open>infolist()\<close>,
  each a name with its bytes. \<open>zf.read(name)\<close> looks the name up in the table of
  names, where a later entry replaces an earlier one of the same name, and raises
  \<open>KeyError\<close> (here \<open>None\<close>) for a name the archive does not have.
\<close>

type_synonym zip_archive = "(ustr \<times> bytes) list"

definition zf_read :: "zip_archive \<Rightarrow> ustr \<Rightarrow> bytes option" where
  "zf_read zf name = map_of (rev zf) name"

definition pdf_files :: "'e pylib \<Rightarrow> zip_archive \<Rightarrow> zip_archive" where
  "pdf_files L zf = filter (\<lambda>info. suffix (cps ''.pdf'') (str_lower L (fst info))) zf"

text \<open>
  A future holds what its task did: \<open>Inr v\<close> when the task returned \<open>v\<close>, \<open>Inl e\<close>
  when it raised \<open>e\<close>, which \<open>future.result()\<close> raises again. The task is
  \<open>process_pdf\<close>, which returns on every input.
\<close>

type_synonym 'e future = "'e + (ustr option \<times> bool \<times> bool)"

definition executor_submit :: "'e pylib \<Rightarrow> bytes \<Rightarrow> 'e future" where
  "executor_submit L file_bytes = Inr (process_pdf L file_bytes)"

text \<open>
  The dictionary \<open>future_to_file\<close>, one future for each entry of \<open>pdf_files\<close>. The
  bytes are read before the task is submitted, outside every \<open>try\<close>: a failing read
  ends the whole run (\<open>None\<close>).
\<close>

fun submit_all :: "'e pylib \<Rightarrow> zip_archive \<Rightarrow> zip_archive \<Rightarrow> ('e future \<times> ustr) list option" where
  "submit_all L zf [] = Some []"
| "submit_all L zf (info # infos) =
     (case zf_read zf (fst info) of
        None \<Rightarrow> None
      | Some file_bytes \<Rightarrow>
          (case submit_all L zf infos of
             None \<Rightarrow> None
           | Some futures \<Rightarrow> Some ((executor_submit L file_bytes, fst info) # futures)))"

text \<open>
  What the session keeps of a run: the three lists, the names for which the loop
  reported an error, and the progress counter.
\<close>

record batch =
  all_results :: "result list"
  matched_files :: "(ustr \<times> bytes) list"
  unmatched_files :: "(ustr \<times> bytes) list"
  errors :: "ustr list"
  processed :: nat

definition empty_batch :: batch where
  "empty_batch =
     \<lparr>all_results = [], matched_files = [], unmatched_files = [], errors = [], processed = 0\<rparr>"

text \<open>\<open>if empresa:\<close> holds for a name that is neither \<open>None\<close> nor the empty string.\<close>

definition truthy :: "ustr option \<Rightarrow> bool" where
  "truthy x = (case x of None \<Rightarrow> False | Some s \<Rightarrow> s \<noteq> [])"

text \<open>
  One round of the loop over the completed futures. An exception inside the \<open>try\<close>
  (from \<open>future.result()\<close> or from \<open>zf.read\<close>) leaves the lists as they are at that
  statement and reports the file; the counter advances in every case.
\<close>

definition handle_completed :: "zip_archive \<Rightarrow> batch \<Rightarrow> 'e future \<times> ustr \<Rightarrow> batch" where
  "handle_completed zf st fut =
     (let fname = snd fut;
          st' =
            (case fst fut of
               Inl e \<Rightarrow> st\<lparr>errors := errors st @ [fname]\<rparr>
             | Inr (name, rf_parc, pgfn_parc) \<Rightarrow>
                 if truthy name then
                   (let res = \<lparr>empresa = or_empty name, rf = rf_parc, pgfn = pgfn_parc,
                               filename = fname\<rparr>;
                        st1 = st\<lparr>all_results := all_results st @ [res]\<rparr>
                    in case zf_read zf fname of
                         None \<Rightarrow> st1\<lparr>errors := errors st1 @ [fname]\<rparr>
                       | Some file_bytes \<Rightarrow>
                           st1\<lparr>matched_files :=
                                 matched_files st1 @ [(or_empty name @ cps ''.pdf'', file_bytes)]\<rparr>)
                 else
                   (case zf_read zf fname of
                      None \<Rightarrow> st\<lparr>errors := errors st @ [fname]\<rparr>
                    | Some file_bytes \<Rightarrow>
                        st\<lparr>unmatched_files := unmatched_files st @ [(fname, file_bytes)]\<rparr>))
      in st'\<lparr>processed := processed st' + 1\<rparr>)"

text \<open>
  \<open>as_completed\<close> yields every future once, in the order in which the tasks finish.
  That order is an input of the model: \<open>order\<close> lists the positions of the futures
  in the order of completion, a permutation of \<open>0..<n\<close> for \<open>n\<close> futures.
\<close>

definition as_completed :: "'a list \<Rightarrow> nat list \<Rightarrow> 'a list" where
  "as_completed futures order = map (\<lambda>i. futures ! i) order"

definition completion_order :: "nat \<Rightarrow> nat list \<Rightarrow> bool" where
  "completion_order n order = (mset order = mset [0..<n])"

definition processamento :: "'e pylib \<Rightarrow> zip_archive \<Rightarrow> nat list \<Rightarrow> batch option" where
  "processamento L zf order =
     (case submit_all L zf (pdf_files L zf) of
        None \<Rightarrow> None
      | Some future_to_file \<Rightarrow>
          Some (foldl (handle_completed zf) empty_batch (as_completed future_to_file order)))"






section \<open>Notions used to state the properties\<close>

text \<open>\<open>first_at sub s k\<close>: the first occurrence of \<open>sub\<close> in \<open>s\<close> starts at index \<open>k\<close>.\<close>

definition first_at :: "ustr \<Rightarrow> ustr \<Rightarrow> nat \<Rightarrow> bool" where
  "first_at sub s k = (k \<le> length s \<and> prefix sub (drop k s) \<and> (\<forall>j<k. \<not> prefix sub (drop j s)))"

text \<open>
  The company name that \<open>process_pdf\<close> extracts for an entry of the archive, from
  the bytes that \<open>zf.read\<close> returns for the name of the entry.
\<close>

definition entry_name :: "'e pylib \<Rightarrow> zip_archive \<Rightarrow> ustr \<times> bytes \<Rightarrow> ustr option" where
  "entry_name L zf info =
     (case zf_read zf (fst info) of None \<Rightarrow> None | Some b \<Rightarrow> fst (process_pdf L b))"

text \<open>
  The number of qualifying entries on whose bytes the body of \<open>process_pdf\<close> raises:
  the documents that cannot be read.
\<close>

definition read_failures :: "'e pylib \<Rightarrow> zip_archive \<Rightarrow> nat" where
  "read_failures L zf =
     length (filter (\<lambda>info. case zf_read zf (fst info) of
                               None \<Rightarrow> False
                             | Some b \<Rightarrow> isl (process_pdf_body L b))
               (pdf_files L zf))"

text \<open>
  The future that the run submits for an entry, and what one completed future adds to
  each of the three lists when the loop does not take its \<open>except\<close> branch.
\<close>

definition future_of :: "'e pylib \<Rightarrow> zip_archive \<Rightarrow> ustr \<times> bytes \<Rightarrow> 'e future \<times> ustr" where
  "future_of L zf info =
     (case zf_read zf (fst info) of
        None \<Rightarrow> (Inr (None, False, False), fst info)
      | Some b \<Rightarrow> (executor_submit L b, fst info))"

definition submitted :: "'e pylib \<Rightarrow> zip_archive \<Rightarrow> 'e future \<times> ustr \<Rightarrow> bool" where
  "submitted L zf fut =
     (\<exists>b. zf_read zf (snd fut) = Some b \<and> fst fut = executor_submit L b)"

definition rec_of :: "'e future \<times> ustr \<Rightarrow> result list" where
  "rec_of fut =
     (case fst fut of
        Inl e \<Rightarrow> []
      | Inr (name, r, p) \<Rightarrow>
          if truthy name then [\<lparr>empresa = or_empty name, rf = r, pgfn = p, filename = snd fut\<rparr>]
          else [])"

definition mat_of :: "zip_archive \<Rightarrow> 'e future \<times> ustr \<Rightarrow> (ustr \<times> bytes) list" where
  "mat_of zf fut =
     (case fst fut of
        Inl e \<Rightarrow> []
      | Inr (name, r, p) \<Rightarrow>
          if truthy name
          then (case zf_read zf (snd fut) of None \<Rightarrow> []
                | Some b \<Rightarrow> [(or_empty name @ cps ''.pdf'', b)])
          else [])"

definition unm_of :: "zip_archive \<Rightarrow> 'e future \<times> ustr \<Rightarrow> (ustr \<times> bytes) list" where
  "unm_of zf fut =
     (case fst fut of
        Inl e \<Rightarrow> []
      | Inr (name, r, p) \<Rightarrow>
          if truthy name then []
          else (case zf_read zf (snd fut) of None \<Rightarrow> [] | Some b \<Rightarrow> [(snd fut, b)]))"


definition has_name :: "'e future \<times> ustr \<Rightarrow> bool" where
  "has_name fut = (case fst fut of Inl x \<Rightarrow> False | Inr (name, r, p) \<Rightarrow> truthy name)"

section \<open>Sample inputs\<close>

text \<open>
  Concrete texts, documents and archives on which the theorems below are evaluated. In
  \<open>sample_lib\<close> the bytes of a document are a one-byte key: \<open>[1]\<close> is a report
  of ACME LTDA, \<open>[2]\<close> a document without the CNPJ line, \<open>[3]\<close> a report whose CNPJ
  line ends after the dash and one blank, \<open>[4]\<close> a document whose second page
  cannot be extracted, \<open>[5]\<close> and \<open>[6]\<close> two-page documents, and every other
  byte string is not a PDF.
\<close>

definition sample_ordered :: ustr where
  "sample_ordered = rf_title @ em_parcelamento @ pgfn_title @ pendencia_parcelamento"

definition sample_reversed :: ustr where
  "sample_reversed = pgfn_title @ pendencia_parcelamento @ rf_title @ em_parcelamento"

definition acme_page :: ustr where
  "acme_page = cps ''CNPJ: 12.345.678 - ACME LTDA'' @ [10] @ cps ''Certidao''"

definition header_page :: ustr where
  "header_page =
     cps ''Emitido por X '' @ cps ''CNPJ: 12.345.678 - ACME LTDA'' @ [10] @ cps ''Certidao''"

definition blank_name_page :: ustr where
  "blank_name_page = cps ''CNPJ: 12.345.678 - ''"

definition ascii_lower :: "ustr \<Rightarrow> ustr" where
  "ascii_lower s = map (\<lambda>c. if 65 \<le> c \<and> c \<le> 90 then c + 32 else c) s"

definition sample_pages :: "bytes \<Rightarrow> string + string page list" where
  "sample_pages b =
     (if b = [1] then Inr [Inr (Some acme_page)]
      else if b = [2] then Inr [Inr (Some (cps ''sem cadastro''))]
      else if b = [3] then Inr [Inr (Some blank_name_page)]
      else if b = [4] then Inr [Inr None, Inl ''PageError'']
      else if b = [5] then Inr [Inr (Some header_page), Inl ''PageError'']
      else if b = [6] then Inr [Inr (Some (cps ''sem cadastro'')), Inr (Some acme_page)]
      else Inl ''PdfReadError'')"

definition sample_lib :: "string pylib" where
  "sample_lib =
     \<lparr>unicode_decimal = (\<lambda>c. False), str_lower = ascii_lower,
      PdfReader = sample_pages, pdfplumber_open = sample_pages\<rparr>"

definition sample_archive :: zip_archive where
  "sample_archive =
     [(cps ''a.pdf'', [1]), (cps ''notes.txt'', [9]), (cps ''B.PDF'', [1]),
      (cps ''c.pdf'', [2]), (cps ''d.pdf'', [0]), (cps ''e.pdf'', [3])]"

definition corrupt_archive :: zip_archive where
  "corrupt_archive = [(cps ''ok.pdf'', [1]), (cps ''bad.pdf'', [0])]"

definition acme_result :: "ustr \<Rightarrow> result" where
  "acme_result fname = \<lparr>empresa = cps ''ACME LTDA'', rf = False, pgfn = False, filename = fname\<rparr>"

definition beta_result :: result where
  "beta_result = \<lparr>empresa = cps ''BETA SA'', rf = True, pgfn = False, filename = cps ''b.pdf''\<rparr>"

definition sample_batch :: batch where
  "sample_batch =
     \<lparr>all_results = [acme_result (cps ''a.pdf''), acme_result (cps ''B.PDF'')],
      matched_files = [(cps ''ACME LTDA.pdf'', [1]), (cps ''ACME LTDA.pdf'', [1])],
      unmatched_files = [(cps ''c.pdf'', [2]), (cps ''e.pdf'', [3]), (cps ''d.pdf'', [0])],
      errors = [],
      processed = 5\<rparr>"

definition corrupt_batch :: batch where
  "corrupt_batch =
     \<lparr>all_results = [acme_result (cps ''ok.pdf'')],
      matched_files = [(cps ''ACME LTDA.pdf'', [1])],
      unmatched_files = [(cps ''bad.pdf'', [0])],
      errors = [],
      processed = 2\<rparr>"

text \<open>
  \<open>header_lib\<close> holds documents for the search of the company name: \<open>[1]\<close> has
  blanks around the name, \<open>[2]\<close> has two CNPJ lines on its page, \<open>[3]\<close> has the line
  on its second page, and the others have it on their third page only. In \<open>nul_lib\<close>
  every document is a report whose company name contains a NUL character.
\<close>

definition padded_page :: ustr where
  "padded_page =
     cps ''Emitido por X '' @ cps ''CNPJ: 12.345.678 -   ACME LTDA  '' @ [10] @ cps ''Certidao''"

definition two_cnpj_page :: ustr where
  "two_cnpj_page =
     cps ''CNPJ: 00.000.000 - A'' @ [10] @ cps ''CNPJ: 12.345.678 - ACME LTDA'' @ [10]"

definition header_pages :: "bytes \<Rightarrow> string + string page list" where
  "header_pages b =
     (if b = [1] then Inr [Inr (Some padded_page), Inl ''PageError'']
      else if b = [2] then Inr [Inr (Some two_cnpj_page)]
      else if b = [3] then Inr [Inr None, Inr (Some header_page), Inl ''PageError'']
      else Inr [Inr (Some (cps ''sem cadastro'')), Inr None, Inr (Some header_page)])"

definition header_lib :: "string pylib" where
  "header_lib =
     \<lparr>unicode_decimal = (\<lambda>c. False), str_lower = ascii_lower,
      PdfReader = header_pages, pdfplumber_open = header_pages\<rparr>"







section \<open>Occurrences, \<open>find\<close> and slices\<close>

lemma py_in_iff: "py_in sub s \<longleftrightarrow> (\<exists>a b. s = a @ sub @ b)"
proof (induction s)
  case Nil
  then show ?case by auto
next
  case (Cons c cs)
  show ?case
  proof
    assume "py_in sub (c # cs)"
    then consider "prefix sub (c # cs)" | "py_in sub cs" by auto
    then show "\<exists>a b. c # cs = a @ sub @ b"
    proof cases
      case 1
      then obtain b where "c # cs = sub @ b" by (auto simp: prefix_def)
      then have "c # cs = [] @ sub @ b" by simp
      then show ?thesis by blast
    next
      case 2
      with Cons.IH obtain a b where "cs = a @ sub @ b" by blast
      then have "c # cs = (c # a) @ sub @ b" by simp
      then show ?thesis by blast
    qed
  next
    assume "\<exists>a b. c # cs = a @ sub @ b"
    then obtain a b where ab: "c # cs = a @ sub @ b" by blast
    show "py_in sub (c # cs)"
    proof (cases a)
      case Nil
      with ab have "prefix sub (c # cs)" by (simp add: prefix_def)
      then show ?thesis by simp
    next
      case (Cons x a')
      with ab have "cs = a' @ sub @ b" by simp
      with Cons.IH have "py_in sub cs" by blast
      then show ?thesis by simp
    qed
  qed
qed

lemma py_in_append: "py_in sub (a @ sub @ b)"
  by (auto simp: py_in_iff)

lemma py_in_sublist: "py_in sub s \<longleftrightarrow> sublist sub s"
  by (auto simp: py_in_iff sublist_def)

lemma find_from_cases:
  "(find_from sub s i = - 1 \<and> \<not> py_in sub s)
   \<or> (\<exists>k\<le>length s. find_from sub s i = int (i + k) \<and> prefix sub (drop k s)
         \<and> (\<forall>j<k. \<not> prefix sub (drop j s)))"
proof (induction s arbitrary: i)
  case Nil
  then show ?case by auto
next
  case (Cons c cs)
  show ?case
  proof (cases "prefix sub (c # cs)")
    case True
    then show ?thesis by auto
  next
    case False
    from Cons.IH [of "Suc i"] show ?thesis
    proof
      assume "find_from sub cs (Suc i) = - 1 \<and> \<not> py_in sub cs"
      with False show ?thesis by simp
    next
      assume "\<exists>k\<le>length cs. find_from sub cs (Suc i) = int (Suc i + k) \<and> prefix sub (drop k cs)
         \<and> (\<forall>j<k. \<not> prefix sub (drop j cs))"
      then obtain k where k: "k \<le> length cs" "find_from sub cs (Suc i) = int (Suc i + k)"
        "prefix sub (drop k cs)" "\<forall>j<k. \<not> prefix sub (drop j cs)" by blast
      have "\<forall>j<Suc k. \<not> prefix sub (drop j (c # cs))"
      proof (intro allI impI)
        fix j assume "j < Suc k"
        then show "\<not> prefix sub (drop j (c # cs))"
          using False k(4) by (cases j) auto
      qed
      with k False have "Suc k \<le> length (c # cs) \<and> find_from sub (c # cs) i = int (i + Suc k)
        \<and> prefix sub (drop (Suc k) (c # cs)) \<and> (\<forall>j<Suc k. \<not> prefix sub (drop j (c # cs)))"
        by simp
      then show ?thesis by blast
    qed
  qed
qed

lemma py_find_cases:
  "(py_find s sub = - 1 \<and> \<not> py_in sub s) \<or> (\<exists>k. py_find s sub = int k \<and> first_at sub s k)"
  using find_from_cases [of sub s 0] by (auto simp: py_find_def first_at_def)

lemma py_find_absent: "\<not> py_in sub s \<Longrightarrow> py_find s sub = - 1"
  using py_find_cases [of s sub] by (auto simp: first_at_def py_in_iff prefix_def)
     (metis append_take_drop_id)

lemma first_at_le:
  assumes "first_at sub s k" and "s = a @ sub @ b"
  shows "k \<le> length a"
proof (rule ccontr)
  assume "\<not> k \<le> length a"
  then have "length a < k" by simp
  with assms(1) have "\<not> prefix sub (drop (length a) s)" by (simp add: first_at_def)
  with assms(2) show False by simp
qed

lemma py_find_present:
  assumes "s = a @ sub @ b"
  obtains k where "py_find s sub = int k" and "first_at sub s k" and "k \<le> length a"
proof -
  have "py_in sub s" using assms by (auto simp: py_in_iff)
  with py_find_cases [of s sub] obtain k where k: "py_find s sub = int k" "first_at sub s k"
    by auto
  with first_at_le [OF k(2) assms] that show thesis by blast
qed

lemma slice_bound_nat: "k \<le> length s \<Longrightarrow> slice_bound s (int k) = k"
  by (simp add: slice_bound_def Let_def)

lemma py_slice_nat:
  "i \<le> length s \<Longrightarrow> j \<le> length s \<Longrightarrow> py_slice s (int i) (int j) = take (j - i) (drop i s)"
  by (simp add: py_slice_def slice_bound_nat Let_def)

lemma py_slice_from_nat: "i \<le> length s \<Longrightarrow> py_slice_from s (int i) = drop i s"
  by (simp add: py_slice_from_def slice_bound_nat)

lemma cps_append: "cps a @ cps b = cps (a @ b)"
  by (simp add: cps_def)

lemma cps_eq_Nil: "cps s = [] \<longleftrightarrow> s = []"
  by (simp add: cps_def)

section \<open>Properties of the classifier\<close>

lemmas marker_defs = rf_title_def pgfn_title_def em_parcelamento_def pendencia_parcelamento_def
  base_indisponivel_def parcelamento_def nao_detectadas_def cps_def

lemmas classify_defs = analyze_text_def rf_section_of_def pgfn_section_of_def
  py_find_def py_slice_def py_slice_from_def slice_bound_def Let_def

lemma markers_nonempty:
  "em_parcelamento \<noteq> []" "pendencia_parcelamento \<noteq> []" "rf_title \<noteq> []" "pgfn_title \<noteq> []"
  by (simp_all add: em_parcelamento_def pendencia_parcelamento_def rf_title_def pgfn_title_def cps_def)

lemma analyze_eq: "analyze_text text = classify_primary text"
  by (simp add: analyze_text_def classify_primary_def Let_def)

lemma process_pdf_body_eq:
  "process_pdf_body L b =
     (case extract_text_from_bytes L b of
        Inl e \<Rightarrow> Inl e
      | Inr tx \<Rightarrow>
          (case extract_company_name_from_bytes L b of
             Inl e \<Rightarrow> Inl e
           | Inr n \<Rightarrow> Inr (n, analyze_text tx)))"
  by (simp add: process_pdf_body_def extract_text_from_bytes_def
      extract_company_name_from_bytes_def analyze_text_def rf_section_of_def
      pgfn_section_of_def Let_def split: sum.splits)

lemma rf_section_nonempty_iff:
  "rf_section_of tx \<noteq> [] \<longleftrightarrow>
     (py_find tx rf_title \<noteq> - 1 \<and> py_find tx pgfn_title \<noteq> - 1
      \<and> py_find tx rf_title < py_find tx pgfn_title)"
proof -
  from py_find_cases [of tx rf_title] py_find_cases [of tx pgfn_title]
  consider "py_find tx rf_title = - 1" | "py_find tx pgfn_title = - 1"
    | kr kp where "py_find tx rf_title = int kr" "first_at rf_title tx kr"
        "py_find tx pgfn_title = int kp" "first_at pgfn_title tx kp"
    by blast
  then show ?thesis
  proof cases
    case 1
    then show ?thesis by (simp add: rf_section_of_def)
  next
    case 2
    then show ?thesis by (simp add: rf_section_of_def)
  next
    case 3
    then have le: "kr \<le> length tx" "kp \<le> length tx" by (simp_all add: first_at_def)
    have "rf_section_of tx = take (kp - kr) (drop kr tx)"
      using 3 le by (simp add: rf_section_of_def py_slice_nat)
    with 3 le show ?thesis by auto
  qed
qed

lemma analyze_neither:
  assumes "\<not> py_in rf_title tx" "\<not> py_in pgfn_title tx"
  shows "analyze_text tx = (False, False)"
  using assms markers_nonempty
  by (simp add: analyze_eq classify_primary_def rf_section_of_def pgfn_section_of_def py_find_absent)

text \<open>
  Claim C3. The secondary checks of the classifier never change the outcome: on every
  text \<open>analyze_text\<close> returns the pair (\<open>EM PARCELAMENTO\<close> occurs in the RF section,
  the PGFN marker \<open>pendencia_parcelamento\<close> occurs in the PGFN section), so it equals the classifier
  of the primary markers only; the copy of the classifier inside \<open>process_pdf\<close>
  computes the same pair from the text of the document.
\<close>

theorem secondary_checks_never_change_outcome:
  "analyze_text tx = classify_primary tx
   \<and> process_pdf_body L b =
       (case extract_text_from_bytes L b of
          Inl e \<Rightarrow> Inl e
        | Inr tx \<Rightarrow>
            (case extract_company_name_from_bytes L b of
               Inl e \<Rightarrow> Inl e
             | Inr n \<Rightarrow> Inr (n, classify_primary tx)))"
  by (simp add: process_pdf_body_eq analyze_eq split: sum.splits)

text \<open>
  Claim C4. The RF section is non-empty exactly when both section headers occur and the
  first occurrence of the RF header precedes the first occurrence of the PGFN header, and
  the RF result can be true only then; when the PGFN header precedes the RF header or a
  header is missing, the RF section is empty and the RF result is false; a text with
  neither header is classified \<open>(False, False)\<close>.
\<close>

theorem rf_needs_both_headers_in_order:
  "(rf_section_of tx \<noteq> [] \<longleftrightarrow>
      py_find tx rf_title \<noteq> - 1 \<and> py_find tx pgfn_title \<noteq> - 1
      \<and> py_find tx rf_title < py_find tx pgfn_title)
   \<and> (fst (analyze_text tx) \<longrightarrow>
        py_find tx rf_title \<noteq> - 1 \<and> py_find tx pgfn_title \<noteq> - 1
        \<and> py_find tx rf_title < py_find tx pgfn_title)
   \<and> (py_find tx rf_title = - 1 \<or> py_find tx pgfn_title = - 1
        \<or> py_find tx pgfn_title < py_find tx rf_title
        \<longrightarrow> rf_section_of tx = [] \<and> \<not> fst (analyze_text tx))
   \<and> (\<not> py_in rf_title tx \<and> \<not> py_in pgfn_title tx \<longrightarrow> analyze_text tx = (False, False))"
proof -
  have iff: "rf_section_of tx \<noteq> [] \<longleftrightarrow>
      py_find tx rf_title \<noteq> - 1 \<and> py_find tx pgfn_title \<noteq> - 1
      \<and> py_find tx rf_title < py_find tx pgfn_title"
    by (rule rf_section_nonempty_iff)
  have rf: "fst (analyze_text tx) \<Longrightarrow> rf_section_of tx \<noteq> []"
    using markers_nonempty(1) by (auto simp: analyze_eq classify_primary_def)
  have neither: "\<not> py_in rf_title tx \<and> \<not> py_in pgfn_title tx \<longrightarrow> analyze_text tx = (False, False)"
    using analyze_neither by blast
  from iff rf neither show ?thesis by auto
qed

theorem rf_needs_both_headers_in_order_witness:
  "fst (analyze_text sample_ordered)
   \<and> py_find sample_ordered rf_title < py_find sample_ordered pgfn_title
   \<and> py_find sample_reversed pgfn_title < py_find sample_reversed rf_title
   \<and> rf_section_of sample_reversed = [] \<and> \<not> fst (analyze_text sample_reversed)
   \<and> \<not> py_in rf_title (cps ''CNPJ'') \<and> \<not> py_in pgfn_title (cps ''CNPJ'')
   \<and> analyze_text (cps ''CNPJ'') = (False, False)"
proof -
  have a: "fst (analyze_text sample_ordered)"
    by (simp add: sample_ordered_def classify_defs marker_defs)
  have b: "py_find sample_reversed pgfn_title < py_find sample_reversed rf_title"
    by (simp add: sample_reversed_def classify_defs marker_defs)
  have c: "\<not> py_in rf_title (cps ''CNPJ'') \<and> \<not> py_in pgfn_title (cps ''CNPJ'')"
    by (simp add: marker_defs)
  from a b c rf_needs_both_headers_in_order [of sample_ordered]
    rf_needs_both_headers_in_order [of sample_reversed]
    rf_needs_both_headers_in_order [of "cps ''CNPJ''"]
  show ?thesis by blast
qed

text \<open>
  Claim C5, as stated: every text in which the RF header, \<open>EM PARCELAMENTO\<close>, the PGFN
  header and the PGFN marker \<open>pendencia_parcelamento\<close> occur in that order is classified
  \<open>(True, True)\<close>. It fails on a text of that form in which the PGFN header also
  occurs before the RF header: the sections are cut at the first occurrence of each
  header, so the RF section is empty.
\<close>

theorem ordered_markers_need_late_pgfn_header_counterexample:
  "analyze_text (pgfn_title @ rf_title @ [] @ em_parcelamento @ [] @ pgfn_title @ []
                   @ pendencia_parcelamento @ []) = (False, True)"
  by (simp add: classify_defs marker_defs)

text \<open>
  Claim C5, amended: a text in which the four literals occur in that order, and in which
  the first occurrence of the PGFN header does not start before the end of that
  \<open>EM PARCELAMENTO\<close>, is classified \<open>(True, True)\<close>.
\<close>

theorem ordered_markers_classified:
  assumes decomp: "tx = a @ rf_title @ b @ em_parcelamento @ c @ pgfn_title @ d
                   @ pendencia_parcelamento @ e"
    and late: "int (length (a @ rf_title @ b @ em_parcelamento)) \<le> py_find tx pgfn_title"
  shows "analyze_text tx = (True, True)"
proof -
  let ?n1 = "length (a @ rf_title @ b @ em_parcelamento)"
  obtain kr where kr: "py_find tx rf_title = int kr" "first_at rf_title tx kr" "kr \<le> length a"
    using py_find_present [of tx a rf_title] decomp by blast
  have "tx = (a @ rf_title @ b @ em_parcelamento @ c) @ pgfn_title
                 @ (d @ pendencia_parcelamento @ e)"
    using decomp by simp
  then obtain kp where kp: "py_find tx pgfn_title = int kp" "first_at pgfn_title tx kp"
      "kp \<le> length (a @ rf_title @ b @ em_parcelamento @ c)"
    using py_find_present [of tx "a @ rf_title @ b @ em_parcelamento @ c" pgfn_title] by blast
  from late kp(1) have n1: "?n1 \<le> kp" by simp
  have len: "kr \<le> length tx" "kp \<le> length tx"
    using kr(2) kp(2) by (simp_all add: first_at_def)
  have rf_sec: "rf_section_of tx = take (kp - kr) (drop kr tx)"
    using kr(1) kp(1) len by (simp add: rf_section_of_def py_slice_nat)
  define P where "P = a @ rf_title @ b"
  define Q where "Q = c @ pgfn_title @ d @ pendencia_parcelamento @ e"
  have tP: "tx = (P @ em_parcelamento) @ Q" and lP: "length (P @ em_parcelamento) \<le> kp"
    and kP: "kr \<le> length P"
    using decomp n1 kr(3) by (simp_all add: P_def Q_def)
  have "take kp tx = (P @ em_parcelamento) @ take (kp - length (P @ em_parcelamento)) Q"
    unfolding tP using lP by simp
  then have "drop kr (take kp tx) = drop kr P @ em_parcelamento
          @ take (kp - length (P @ em_parcelamento)) Q"
    using kP by simp
  then have "py_in em_parcelamento (drop kr (take kp tx))"
    by (simp only: py_in_append)
  then have rf: "py_in em_parcelamento (rf_section_of tx)"
    by (simp add: rf_sec drop_take)
  have "pgfn_section_of tx = drop kp tx"
    using kp(1) len by (simp add: pgfn_section_of_def py_slice_from_nat)
  also have "\<dots> = drop kp (a @ rf_title @ b @ em_parcelamento @ c @ pgfn_title @ d)
                @ pendencia_parcelamento @ e"
  proof -
    define R where "R = a @ rf_title @ b @ em_parcelamento @ c @ pgfn_title @ d"
    have "tx = R @ pendencia_parcelamento @ e" "kp \<le> length R"
      using decomp kp(3) by (simp_all add: R_def)
    then have "drop kp tx = drop kp R @ pendencia_parcelamento @ e" by simp
    then show ?thesis by (simp only: R_def)
  qed
  finally have pg: "py_in pendencia_parcelamento (pgfn_section_of tx)"
    by (simp only: py_in_append)
  from rf pg show ?thesis by (simp add: analyze_eq classify_primary_def)
qed

theorem ordered_markers_classified_witness:
  "int (length ([32] @ rf_title @ [10] @ em_parcelamento))
     \<le> py_find ([32] @ rf_title @ [10] @ em_parcelamento @ [10] @ pgfn_title @ [10]
                   @ pendencia_parcelamento @ [10]) pgfn_title
   \<and> analyze_text ([32] @ rf_title @ [10] @ em_parcelamento @ [10] @ pgfn_title @ [10]
                   @ pendencia_parcelamento @ [10]) = (True, True)"
proof -
  have h: "int (length ([32] @ rf_title @ [10] @ em_parcelamento))
     \<le> py_find ([32] @ rf_title @ [10] @ em_parcelamento @ [10] @ pgfn_title @ [10]
                   @ pendencia_parcelamento @ [10]) pgfn_title"
    by (simp add: classify_defs marker_defs)
  from h ordered_markers_classified [OF refl h] show ?thesis by blast
qed

section \<open>Properties of the regular expression\<close>

lemma rx_match_lit: "rx_match (lit s @ r) (s @ t) = rx_match r t"
  by (induction s) (simp_all add: lit_def)

lemma rx_match_star_more:
  assumes "\<forall>c\<in>set ws. p c" and "rx_match (Star p # r) t = Some m"
  shows "rx_match (Star p # r) (ws @ t) = Some m"
  using assms by (induction ws) simp_all

lemma rx_match_star_stop:
  assumes "t = [] \<or> \<not> p (hd t)"
  shows "rx_match (Star p # r) t = rx_match r t"
  using assms by (cases t) simp_all

lemma rx_match_star_run:
  assumes "\<forall>c\<in>set ws. p c" and "t = [] \<or> \<not> p (hd t)" and "rx_match r t = Some m"
  shows "rx_match (Star p # r) (ws @ t) = Some m"
  using assms by (simp add: rx_match_star_more rx_match_star_stop)

lemma rx_search_first:
  assumes "\<forall>i<length pre. rx_match items (drop i (pre @ t)) = None"
    and "rx_match items t = Some m"
  shows "rx_search items (pre @ t) = Some m"
  using assms
proof (induction pre)
  case Nil
  then show ?case by (cases t) simp_all
next
  case (Cons c pre)
  from Cons.prems(1) have "rx_match items (drop 0 ((c # pre) @ t)) = None" by blast
  then have here: "rx_match items (c # pre @ t) = None" by simp
  have "\<forall>i<length pre. rx_match items (drop i (pre @ t)) = None"
  proof (intro allI impI)
    fix i assume "i < length pre"
    then have "Suc i < length (c # pre)" by simp
    with Cons.prems(1) have "rx_match items (drop (Suc i) ((c # pre) @ t)) = None" by blast
    then show "rx_match items (drop i (pre @ t)) = None" by simp
  qed
  from Cons.IH [OF this Cons.prems(2)] here show ?case by simp
qed

lemma rx_search_none:
  assumes "\<forall>i\<le>length t. rx_match items (drop i t) = None"
  shows "rx_search items t = None"
  using assms
proof (induction t)
  case Nil
  then show ?case by simp
next
  case (Cons c t)
  from Cons.prems have "rx_match items (drop 0 (c # t)) = None" by blast
  then have here: "rx_match items (c # t) = None" by simp
  have "\<forall>i\<le>length t. rx_match items (drop i t) = None"
  proof (intro allI impI)
    fix i assume "i \<le> length t"
    then have "Suc i \<le> length (c # t)" by simp
    with Cons.prems have "rx_match items (drop (Suc i) (c # t)) = None" by blast
    then show "rx_match items (drop i t) = None" by simp
  qed
  from Cons.IH [OF this] here show ?case by simp
qed

lemma no_match_before_literal:
  assumes "items = One (\<lambda>x. x = c0) # r" and "c0 \<notin> set pre"
  shows "\<forall>i<length pre. rx_match items (drop i (pre @ t)) = None"
proof (intro allI impI)
  fix i assume i: "i < length pre"
  then have "drop i (pre @ t) = pre ! i # drop (Suc i) pre @ t"
    by (simp add: Cons_nth_drop_Suc)
  moreover from i assms(2) have "pre ! i \<noteq> c0" by (metis nth_mem)
  ultimately show "rx_match items (drop i (pre @ t)) = None"
    by (simp add: assms(1))
qed

lemma cnpj_pattern_head: "\<exists>r. cnpj_pattern L = One (\<lambda>x. x = 67) # r"
  by (simp add: cnpj_pattern_def lit_def cps_def)

lemma ascii_digit: "48 \<le> d \<and> d \<le> 57 \<Longrightarrow> is_digit L d \<and> \<not> is_space d"
  by (auto simp: is_digit_def is_space_def)

lemma rx_match_length:
  "rx_match items s = Some m \<Longrightarrow> length m = Suc (length (filter (\<lambda>x. x = Mark) items))"
proof (induction items s arbitrary: m rule: rx_match.induct)
  case (1 s)
  then show ?case by auto
next
  case (2 p r)
  then show ?case by simp
next
  case (3 p r c cs)
  then show ?case by (auto split: if_splits)
next
  case (4 r s)
  then show ?case by auto
next
  case (5 p r)
  then show ?case by simp
next
  case (6 p r c cs)
  then show ?case by (auto split: if_splits option.splits)
qed

lemma rx_search_some:
  assumes "rx_match items t = Some m"
  shows "\<exists>m'. rx_search items (pre @ t) = Some m'"
proof (induction pre)
  case Nil
  from assms show ?case by (cases t) simp_all
next
  case (Cons c pre)
  then show ?case by (cases "rx_match items (c # pre @ t)") auto
qed

lemma rx_search_length:
  "rx_search items s = Some m \<Longrightarrow> length m = Suc (length (filter (\<lambda>x. x = Mark) items))"
proof (induction s)
  case Nil
  then show ?case by (simp add: rx_match_length)
next
  case (Cons c s)
  then show ?case
    by (cases "rx_match items (c # s)") (simp_all add: rx_match_length)
qed

lemma cnpj_pattern_marks: "length (filter (\<lambda>x. x = Mark) (cnpj_pattern L)) = 1"
  by (simp add: cnpj_pattern_def lit_def cps_def)

lemma cnpj_search_some:
  assumes "rx_match (cnpj_pattern L) t = Some m"
  shows "\<exists>g. cnpj_search L (pre @ t) = Some g"
proof -
  from rx_search_some [OF assms] obtain m' where
    m': "rx_search (cnpj_pattern L) (pre @ t) = Some m'" by blast
  from rx_search_length [OF m'] have "length m' = 2" by (simp add: cnpj_pattern_marks)
  then obtain g e where "m' = [g, e]"
    by (cases m'; cases "tl m'"; cases "tl (tl m')") auto
  with m' show ?thesis by (simp add: cnpj_search_def)
qed

text \<open>
  A line of the described shape: \<open>CNPJ:\<close>, blanks, eight digits grouped 2-3-3 by
  dots, blanks, a dash, blanks, and a name that runs to the end of the line.
\<close>

lemma cnpj_match_line:
  assumes sp: "\<forall>c\<in>set ws1. is_space c" "\<forall>c\<in>set ws2. is_space c" "\<forall>c\<in>set ws3. is_space c"
    and dg: "\<forall>d\<in>set [d1, d2, d3, d4, d5, d6, d7, d8]. 48 \<le> d \<and> d \<le> 57"
    and nm: "name \<noteq> []" "10 \<notin> set name" "\<not> is_space (hd name)"
    and rest: "rest = [] \<or> hd rest = 10"
  shows "rx_match (cnpj_pattern L)
           (cps ''CNPJ:'' @ ws1 @ [d1, d2, 46, d3, d4, d5, 46, d6, d7, d8] @ ws2 @ [45] @ ws3
              @ name @ rest)
         = Some [name @ rest, rest]"
proof -
  let ?q = "\<lambda>c::nat. c \<noteq> 10"
  let ?r3 = "[Mark, One ?q, Star ?q]"
  let ?r2 = "lit (cps ''-'') @ Star is_space # ?r3"
  let ?r1 = "[One (is_digit L), One (is_digit L)] @ lit (cps ''.'')
     @ [One (is_digit L), One (is_digit L), One (is_digit L)] @ lit (cps ''.'')
     @ [One (is_digit L), One (is_digit L), One (is_digit L)] @ Star is_space # ?r2"
  have pat: "cnpj_pattern L = lit (cps ''CNPJ:'') @ Star is_space # ?r1"
    by (simp add: cnpj_pattern_def)
  from dg have d: "is_digit L d1" "is_digit L d2" "is_digit L d3" "is_digit L d4" "is_digit L d5"
      "is_digit L d6" "is_digit L d7" "is_digit L d8" "\<not> is_space d1"
    using ascii_digit [of _ L] by simp_all
  obtain n name' where name: "name = n # name'" using nm(1) by (cases name) auto
  with nm have n: "?q n" "\<forall>c\<in>set name'. ?q c" "\<not> is_space n" by auto
  have "rx_match [Star ?q] (name' @ rest) = Some [rest]"
    using n(2) rest by (intro rx_match_star_run) auto
  then have m3: "rx_match ?r3 (name @ rest) = Some [name @ rest, rest]"
    using n(1) by (simp add: name)
  have m3': "rx_match (Star is_space # ?r3) (ws3 @ name @ rest) = Some [name @ rest, rest]"
    using sp(3) n(3) m3 by (intro rx_match_star_run) (auto simp: name)
  have m2: "rx_match ?r2 ([45] @ ws3 @ name @ rest) = Some [name @ rest, rest]"
    using m3' by (simp add: lit_def cps_def)
  have m2': "rx_match (Star is_space # ?r2) (ws2 @ [45] @ ws3 @ name @ rest)
      = Some [name @ rest, rest]"
    using sp(2) m2 by (intro rx_match_star_run) (auto simp: is_space_def)
  have m1: "rx_match ?r1 ([d1, d2, 46, d3, d4, d5, 46, d6, d7, d8] @ ws2 @ [45] @ ws3 @ name @ rest)
      = Some [name @ rest, rest]"
    using d m2' by (simp add: lit_def cps_def)
  have m1': "rx_match (Star is_space # ?r1)
      (ws1 @ [d1, d2, 46, d3, d4, d5, 46, d6, d7, d8] @ ws2 @ [45] @ ws3 @ name @ rest)
      = Some [name @ rest, rest]"
    using sp(1) d(9) m1 by (intro rx_match_star_run) auto
  show ?thesis
    unfolding pat using m1' by (simp only: rx_match_lit append_assoc)
qed

lemma cnpj_search_line:
  assumes sp: "\<forall>c\<in>set ws1. is_space c" "\<forall>c\<in>set ws2. is_space c" "\<forall>c\<in>set ws3. is_space c"
    and dg: "\<forall>d\<in>set [d1, d2, d3, d4, d5, d6, d7, d8]. 48 \<le> d \<and> d \<le> 57"
    and nm: "name \<noteq> []" "10 \<notin> set name" "\<not> is_space (hd name)"
    and rest: "rest = [] \<or> hd rest = 10"
    and tx: "tx = pre @ cps ''CNPJ:'' @ ws1 @ [d1, d2, 46, d3, d4, d5, 46, d6, d7, d8] @ ws2 @ [45]
               @ ws3 @ name @ rest"
    and first: "\<forall>i<length pre. rx_match (cnpj_pattern L) (drop i tx) = None"
  shows "cnpj_search L tx = Some name"
proof -
  let ?t = "cps ''CNPJ:'' @ ws1 @ [d1, d2, 46, d3, d4, d5, 46, d6, d7, d8] @ ws2 @ [45]
               @ ws3 @ name @ rest"
  have m: "rx_match (cnpj_pattern L) ?t = Some [name @ rest, rest]"
    by (rule cnpj_match_line [OF sp dg nm rest])
  have "rx_search (cnpj_pattern L) (pre @ ?t) = Some [name @ rest, rest]"
    using first m unfolding tx by (intro rx_search_first) simp_all
  then show ?thesis by (simp add: cnpj_search_def tx)
qed

lemma strip_padded:
  assumes "name \<noteq> []" "\<not> is_space (hd name)" "\<not> is_space (last name)"
    and "\<forall>c\<in>set trail. is_space c"
  shows "strip (name @ trail) = name"
proof -
  from assms(1,2) have a: "dropWhile is_space (name @ trail) = name @ trail"
    by (cases name) simp_all
  from assms(4) have "dropWhile is_space (rev trail @ rev name) = dropWhile is_space (rev name)"
    by (intro dropWhile_append2) simp
  also from assms(1,3) have "\<dots> = rev name"
    by (cases name rule: rev_cases) simp_all
  finally show ?thesis by (simp add: strip_def a)
qed

lemma rx_match_star_none:
  assumes "\<forall>c\<in>set ws. \<forall>t'. rx_match r (c # t') = None"
    and "rx_match (Star p # r) t = None"
  shows "rx_match (Star p # r) (ws @ t) = None"
  using assms by (induction ws) simp_all

lemma space_not_ascii_digit: "is_space c \<Longrightarrow> \<not> (48 \<le> c \<and> c \<le> 57)"
  by (auto simp: is_space_def)

text \<open>A digit group with a character that is no decimal digit does not match.\<close>

lemma cnpj_no_match_nondigit:
  assumes sp: "\<forall>c\<in>set ws1. is_space c \<and> \<not> unicode_decimal L c"
    and d1: "\<not> is_space d1"
    and bad: "\<exists>d\<in>set [d1, d2, d3, d4, d5, d6, d7, d8]. \<not> (48 \<le> d \<and> d \<le> 57) \<and> \<not> unicode_decimal L d"
  shows "rx_match (cnpj_pattern L)
           (cps ''CNPJ:'' @ ws1 @ [d1, d2, 46, d3, d4, d5, 46, d6, d7, d8] @ rest) = None"
proof -
  let ?r1 = "[One (is_digit L), One (is_digit L)] @ lit (cps ''.'')
     @ [One (is_digit L), One (is_digit L), One (is_digit L)] @ lit (cps ''.'')
     @ [One (is_digit L), One (is_digit L), One (is_digit L)] @ Star is_space #
       lit (cps ''-'') @ [Star is_space, Mark, One (\<lambda>c. c \<noteq> 10), Star (\<lambda>c. c \<noteq> 10)]"
  have pat: "cnpj_pattern L = lit (cps ''CNPJ:'') @ Star is_space # ?r1"
    by (simp add: cnpj_pattern_def)
  from bad have "\<exists>d\<in>set [d1, d2, d3, d4, d5, d6, d7, d8]. \<not> is_digit L d"
    by (auto simp: is_digit_def)
  then have digits: "rx_match ?r1 ([d1, d2, 46, d3, d4, d5, 46, d6, d7, d8] @ rest) = None"
    by (auto simp: lit_def cps_def)
  then have stop: "rx_match (Star is_space # ?r1) ([d1, d2, 46, d3, d4, d5, 46, d6, d7, d8] @ rest)
      = None"
    using d1 by simp
  have "\<forall>c\<in>set ws1. \<forall>t'. rx_match ?r1 (c # t') = None"
    using sp space_not_ascii_digit by (auto simp: is_digit_def)
  from rx_match_star_none [OF this stop]
  have "rx_match (Star is_space # ?r1)
      (ws1 @ [d1, d2, 46, d3, d4, d5, 46, d6, d7, d8] @ rest) = None" .
  then show ?thesis
    unfolding pat by (simp only: rx_match_lit append_assoc)
qed

lemma cnpj_negative_examples:
  "\<not> unicode_decimal L 97 \<Longrightarrow> cnpj_search L (cps ''CNPJ: 1a.345.678 - ACME LTDA'') = None"
  "cnpj_search L (cps ''CNPJ: 123.45.678 - ACME LTDA'') = None"
  "cnpj_search L (cps ''CNPJ: 12.345.678 ACME LTDA'') = None"
  by (simp_all add: cnpj_search_def cnpj_pattern_def lit_def cps_def is_digit_def is_space_def)

section \<open>The sample documents\<close>

lemma name_acme: "cnpj_search sample_lib acme_page = Some (cps ''ACME LTDA'')"
  by (simp add: cnpj_search_def cnpj_pattern_def lit_def acme_page_def cps_def is_digit_def
      is_space_def sample_lib_def)

lemma name_blank: "cnpj_search sample_lib blank_name_page = Some [32]"
  by (simp add: cnpj_search_def cnpj_pattern_def lit_def blank_name_page_def cps_def is_digit_def
      is_space_def sample_lib_def)

lemma name_none: "cnpj_search sample_lib (cps ''sem cadastro'') = None"
  by (simp add: cnpj_search_def cnpj_pattern_def lit_def cps_def is_digit_def
      is_space_def sample_lib_def)

lemma strip_acme: "strip (cps ''ACME LTDA'') = cps ''ACME LTDA''"
  by (simp add: strip_def cps_def is_space_def)

lemma strip_blank: "strip [32] = []"
  by (simp add: strip_def is_space_def)

lemma sample_process_pdf:
  "process_pdf sample_lib [1] = (Some (cps ''ACME LTDA''), False, False)"
  "process_pdf sample_lib [2] = (None, False, False)"
  "process_pdf sample_lib [3] = (Some [], False, False)"
  "process_pdf sample_lib [0] = (None, False, False)"
  "process_pdf_body sample_lib [0] = Inl ''PdfReadError''"
proof -
  have L: "PdfReader sample_lib = sample_pages" "pdfplumber_open sample_lib = sample_pages"
    by (simp_all add: sample_lib_def)
  have c1: "analyze_text (acme_page @ [10]) = (False, False)"
    by (simp add: classify_defs marker_defs acme_page_def)
  have c2: "analyze_text (cps ''sem cadastro'' @ [10]) = (False, False)"
    by (simp add: classify_defs marker_defs)
  have c3: "analyze_text (blank_name_page @ [10]) = (False, False)"
    by (simp add: classify_defs marker_defs blank_name_page_def)
  show "process_pdf sample_lib [1] = (Some (cps ''ACME LTDA''), False, False)"
    by (simp add: process_pdf_def process_pdf_body_eq extract_text_from_bytes_def
        extract_company_name_from_bytes_def L sample_pages_def or_empty_def name_acme strip_acme c1)
  show "process_pdf sample_lib [2] = (None, False, False)"
    by (simp add: process_pdf_def process_pdf_body_eq extract_text_from_bytes_def
        extract_company_name_from_bytes_def L sample_pages_def or_empty_def name_none c2)
  show "process_pdf sample_lib [3] = (Some [], False, False)"
    by (simp add: process_pdf_def process_pdf_body_eq extract_text_from_bytes_def
        extract_company_name_from_bytes_def L sample_pages_def or_empty_def name_blank strip_blank c3)
  show "process_pdf_body sample_lib [0] = Inl ''PdfReadError''"
    by (simp add: process_pdf_body_def L sample_pages_def)
  then show "process_pdf sample_lib [0] = (None, False, False)"
    by (simp add: process_pdf_def)
qed

lemma sample_body_ok: "\<not> isl (process_pdf_body sample_lib [1])"
proof -
  have L: "PdfReader sample_lib = sample_pages" "pdfplumber_open sample_lib = sample_pages"
    by (simp_all add: sample_lib_def)
  show ?thesis
    by (simp add: process_pdf_body_eq extract_text_from_bytes_def
        extract_company_name_from_bytes_def L sample_pages_def or_empty_def name_acme)
qed

text \<open>
  Claim C6, as stated, ends: on header text containing \<open>CNPJ: 12.345.678 - ACME LTDA\<close>
  followed by a newline the result is \<open>ACME LTDA\<close>. It fails on a page that has
  another CNPJ line before this one: the search returns the first match of the page.
\<close>

lemma header_open:
  "pdfplumber_open header_lib [1] = Inr [Inr (Some padded_page), Inl ''PageError'']"
  "pdfplumber_open header_lib [2] = Inr [Inr (Some two_cnpj_page)]"
  "pdfplumber_open header_lib [3] = Inr [Inr None, Inr (Some header_page), Inl ''PageError'']"
  "pdfplumber_open header_lib [4]
     = Inr [Inr (Some (cps ''sem cadastro'')), Inr None, Inr (Some header_page)]"
  by (simp_all add: header_lib_def header_pages_def)

lemma two_cnpj_search: "cnpj_search header_lib two_cnpj_page = Some (cps ''A'')"
  by (simp add: cnpj_search_def cnpj_pattern_def lit_def two_cnpj_page_def cps_def is_digit_def
      is_space_def header_lib_def)

theorem first_match_wins_counterexample:
  "pdfplumber_open header_lib [2]
     = Inr [Inr (Some (cps ''CNPJ: 00.000.000 - A'' @ [10] @ cps ''CNPJ: 12.345.678 - ACME LTDA''
                         @ [10]))]
   \<and> extract_company_name_from_bytes header_lib [2] = Inr (Some (cps ''A''))"
proof -
  have "strip (cps ''A'') = cps ''A''" by (simp add: strip_def cps_def is_space_def)
  then have "extract_company_name_from_bytes header_lib [2] = Inr (Some (cps ''A''))"
    by (simp add: extract_company_name_from_bytes_def header_open or_empty_def two_cnpj_search)
  with header_open(2) show ?thesis by (simp add: two_cnpj_page_def)
qed

text \<open>
  Claim C6, amended. \<open>extract_company_name_from_bytes\<close> searches the text of the
  first two pages, page by page, for \<open>CNPJ:\<close> followed by a 2-3-3 digit group, a dash
  and free text up to the end of the line. It returns \<open>None\<close> when neither page
  matches; when a page matches it returns the text captured by the first match on that
  page, stripped of surrounding white space, and the pages after it are not consulted
  (they may even fail to extract). On a line of the described shape that is the first
  match of its page, the captured text is the name with the blanks that follow it, and
  the result is the name; a digit group with a character that is no decimal digit, a
  group that is not 2-3-3, and a line without the dash do not match. In particular,
  when \<open>CNPJ: 12.345.678 - ACME LTDA\<close> followed by a newline is the first match of the
  first of the two pages that has a match, the result is \<open>ACME LTDA\<close>; a first page
  that contains this line anywhere yields the stripped group of its first match.
\<close>

theorem extract_company_name_first_match:
  "(pdfplumber_open L b = Inr pages
      \<and> (\<forall>p\<in>set (take 2 pages). \<exists>t. p = Inr t \<and> cnpj_search L (or_empty t) = None)
      \<longrightarrow> extract_company_name_from_bytes L b = Inr None)
   \<and> (pdfplumber_open L b = Inr (Inr t # later) \<and> cnpj_search L (or_empty t) = Some g
      \<longrightarrow> extract_company_name_from_bytes L b = Inr (Some (strip g)))
   \<and> (pdfplumber_open L b = Inr (Inr t1 # Inr t2 # later)
      \<and> cnpj_search L (or_empty t1) = None \<and> cnpj_search L (or_empty t2) = Some g
      \<longrightarrow> extract_company_name_from_bytes L b = Inr (Some (strip g)))
   \<and> ((\<forall>c\<in>set ws1. is_space c) \<and> (\<forall>c\<in>set ws2. is_space c) \<and> (\<forall>c\<in>set ws3. is_space c)
      \<and> (\<forall>d\<in>set [d1, d2, d3, d4, d5, d6, d7, d8]. 48 \<le> d \<and> d \<le> 57)
      \<and> name \<noteq> [] \<and> 10 \<notin> set name \<and> \<not> is_space (hd name) \<and> \<not> is_space (last name)
      \<and> (\<forall>c\<in>set trail. is_space c \<and> c \<noteq> 10)
      \<and> (rest = [] \<or> hd rest = 10)
      \<and> tx = pre @ cps ''CNPJ:'' @ ws1 @ [d1, d2, 46, d3, d4, d5, 46, d6, d7, d8] @ ws2 @ [45]
               @ ws3 @ name @ trail @ rest
      \<and> (\<forall>i<length pre. rx_match (cnpj_pattern L) (drop i tx) = None)
      \<longrightarrow> cnpj_search L tx = Some (name @ trail)
          \<and> (pdfplumber_open L b = Inr (Inr (Some tx) # later)
               \<longrightarrow> extract_company_name_from_bytes L b = Inr (Some name))
          \<and> (pdfplumber_open L b = Inr (Inr t1 # Inr (Some tx) # later)
               \<and> cnpj_search L (or_empty t1) = None
               \<longrightarrow> extract_company_name_from_bytes L b = Inr (Some name)))
   \<and> ((\<forall>c\<in>set ws1. is_space c \<and> \<not> unicode_decimal L c) \<and> \<not> is_space d1
      \<and> (\<exists>d\<in>set [d1, d2, d3, d4, d5, d6, d7, d8].
            \<not> (48 \<le> d \<and> d \<le> 57) \<and> \<not> unicode_decimal L d)
      \<longrightarrow> rx_match (cnpj_pattern L)
            (cps ''CNPJ:'' @ ws1 @ [d1, d2, 46, d3, d4, d5, 46, d6, d7, d8] @ rest) = None)
   \<and> (\<not> unicode_decimal L 97
      \<longrightarrow> cnpj_search L (cps ''CNPJ: 1a.345.678 - ACME LTDA'') = None)
   \<and> cnpj_search L (cps ''CNPJ: 123.45.678 - ACME LTDA'') = None
   \<and> cnpj_search L (cps ''CNPJ: 12.345.678 ACME LTDA'') = None
   \<and> (pdfplumber_open L b
        = Inr (Inr (Some (pre @ cps ''CNPJ: 12.345.678 - ACME LTDA'' @ [10] @ post)) # later)
      \<and> (\<forall>i<length pre. rx_match (cnpj_pattern L)
              (drop i (pre @ cps ''CNPJ: 12.345.678 - ACME LTDA'' @ [10] @ post)) = None)
      \<longrightarrow> extract_company_name_from_bytes L b = Inr (Some (cps ''ACME LTDA'')))
   \<and> (pdfplumber_open L b
        = Inr (Inr t1 # Inr (Some (pre @ cps ''CNPJ: 12.345.678 - ACME LTDA'' @ [10] @ post))
                 # later)
      \<and> cnpj_search L (or_empty t1) = None
      \<and> (\<forall>i<length pre. rx_match (cnpj_pattern L)
              (drop i (pre @ cps ''CNPJ: 12.345.678 - ACME LTDA'' @ [10] @ post)) = None)
      \<longrightarrow> extract_company_name_from_bytes L b = Inr (Some (cps ''ACME LTDA'')))
   \<and> (pdfplumber_open L b
        = Inr (Inr (Some (pre @ cps ''CNPJ: 12.345.678 - ACME LTDA'' @ [10] @ post)) # later)
      \<longrightarrow> (\<exists>g. cnpj_search L (pre @ cps ''CNPJ: 12.345.678 - ACME LTDA'' @ [10] @ post) = Some g
             \<and> extract_company_name_from_bytes L b = Inr (Some (strip g))))"
proof -
  have none: "name_loop L ps = Inr None"
    if "\<forall>p\<in>set ps. \<exists>t. p = Inr t \<and> cnpj_search L (or_empty t) = None" for ps
    using that by (induction ps) auto
  have c1: "extract_company_name_from_bytes L b = Inr None"
    if "pdfplumber_open L b = Inr pages"
      "\<forall>p\<in>set (take 2 pages). \<exists>t. p = Inr t \<and> cnpj_search L (or_empty t) = None"
    using that(1) none [OF that(2)] by (simp add: extract_company_name_from_bytes_def)
  have c2: "extract_company_name_from_bytes L b = Inr (Some (strip g))"
    if "pdfplumber_open L b = Inr (Inr t # later)" "cnpj_search L (or_empty t) = Some g"
    for t later g
    using that by (simp add: extract_company_name_from_bytes_def numeral_2_eq_2)
  have c3: "extract_company_name_from_bytes L b = Inr (Some (strip g))"
    if "pdfplumber_open L b = Inr (Inr t1 # Inr t2 # later)"
      "cnpj_search L (or_empty t1) = None" "cnpj_search L (or_empty t2) = Some g"
    for t1 t2 later g
    using that by (simp add: extract_company_name_from_bytes_def numeral_2_eq_2)
  have c4: "cnpj_search L tx = Some (name @ trail)
          \<and> (pdfplumber_open L b = Inr (Inr (Some tx) # later)
               \<longrightarrow> extract_company_name_from_bytes L b = Inr (Some name))
          \<and> (pdfplumber_open L b = Inr (Inr t1 # Inr (Some tx) # later)
               \<and> cnpj_search L (or_empty t1) = None
               \<longrightarrow> extract_company_name_from_bytes L b = Inr (Some name))"
    if sp: "\<forall>c\<in>set ws1. is_space c" "\<forall>c\<in>set ws2. is_space c" "\<forall>c\<in>set ws3. is_space c"
      and dg: "\<forall>d\<in>set [d1, d2, d3, d4, d5, d6, d7, d8]. 48 \<le> d \<and> d \<le> 57"
      and nm: "name \<noteq> []" "10 \<notin> set name" "\<not> is_space (hd name)" "\<not> is_space (last name)"
      and tr: "\<forall>c\<in>set trail. is_space c \<and> c \<noteq> 10"
      and rest: "rest = [] \<or> hd rest = 10"
      and shape: "tx = pre @ cps ''CNPJ:'' @ ws1 @ [d1, d2, 46, d3, d4, d5, 46, d6, d7, d8] @ ws2
               @ [45] @ ws3 @ name @ trail @ rest"
      and first: "\<forall>i<length pre. rx_match (cnpj_pattern L) (drop i tx) = None"
    for tx pre
  proof -
    have g1: "name @ trail \<noteq> []" "10 \<notin> set (name @ trail)" "\<not> is_space (hd (name @ trail))"
      using nm tr by auto
    have shape': "tx = pre @ cps ''CNPJ:'' @ ws1 @ [d1, d2, 46, d3, d4, d5, 46, d6, d7, d8] @ ws2
               @ [45] @ ws3 @ (name @ trail) @ rest"
      using shape by simp
    have s: "cnpj_search L tx = Some (name @ trail)"
      by (rule cnpj_search_line [OF sp dg g1 rest shape' first])
    have st: "strip (name @ trail) = name"
      using nm tr by (intro strip_padded) auto
    from c2 [of "Some tx" later "name @ trail"] c3 [of t1 "Some tx" later "name @ trail"] s st
    show ?thesis by (simp add: or_empty_def)
  qed
  have c5: "rx_match (cnpj_pattern L)
            (cps ''CNPJ:'' @ ws1 @ [d1, d2, 46, d3, d4, d5, 46, d6, d7, d8] @ rest) = None"
    if "\<forall>c\<in>set ws1. is_space c \<and> \<not> unicode_decimal L c" "\<not> is_space d1"
      "\<exists>d\<in>set [d1, d2, d3, d4, d5, d6, d7, d8]. \<not> (48 \<le> d \<and> d \<le> 57) \<and> \<not> unicode_decimal L d"
    using that by (rule cnpj_no_match_nondigit)
  let ?acme = "pre @ cps ''CNPJ: 12.345.678 - ACME LTDA'' @ [10] @ post"
  have shape: "?acme = pre @ cps ''CNPJ:'' @ [32] @ [49, 50, 46, 51, 52, 53, 46, 54, 55, 56]
        @ [32] @ [45] @ [32] @ cps ''ACME LTDA'' @ ([10] @ post)"
    by (simp add: cps_def)
  have acme: "cnpj_search L ?acme = Some (cps ''ACME LTDA'')"
    if first: "\<forall>i<length pre. rx_match (cnpj_pattern L) (drop i ?acme) = None"
    by (rule cnpj_search_line [OF _ _ _ _ _ _ _ _ shape first])
      (simp_all add: is_space_def cps_def)
  have c6: "extract_company_name_from_bytes L b = Inr (Some (cps ''ACME LTDA''))"
    if "pdfplumber_open L b = Inr (Inr (Some ?acme) # later)"
      "\<forall>i<length pre. rx_match (cnpj_pattern L) (drop i ?acme) = None"
    using c2 [of "Some ?acme" later "cps ''ACME LTDA''"] that(1) acme [OF that(2)]
    by (simp add: or_empty_def strip_acme)
  have c7: "extract_company_name_from_bytes L b = Inr (Some (cps ''ACME LTDA''))"
    if "pdfplumber_open L b = Inr (Inr t1 # Inr (Some ?acme) # later)"
      "cnpj_search L (or_empty t1) = None"
      "\<forall>i<length pre. rx_match (cnpj_pattern L) (drop i ?acme) = None"
    using c3 [of t1 "Some ?acme" later "cps ''ACME LTDA''"] that(1,2) acme [OF that(3)]
    by (simp add: or_empty_def strip_acme)
  have c8: "\<exists>g. cnpj_search L ?acme = Some g
             \<and> extract_company_name_from_bytes L b = Inr (Some (strip g))"
    if op: "pdfplumber_open L b = Inr (Inr (Some ?acme) # later)"
  proof -
    let ?line = "cps ''CNPJ:'' @ [32] @ [49, 50, 46, 51, 52, 53, 46, 54, 55, 56]
        @ [32] @ [45] @ [32] @ cps ''ACME LTDA'' @ ([10] @ post)"
    have sh: "cps ''CNPJ: 12.345.678 - ACME LTDA'' @ [10] @ post = ?line"
      by (simp add: cps_def)
    have "rx_match (cnpj_pattern L) ?line = Some [cps ''ACME LTDA'' @ [10] @ post, [10] @ post]"
      by (rule cnpj_match_line) (simp_all add: is_space_def cps_def)
    from cnpj_search_some [OF this, of pre] obtain g where
      g: "cnpj_search L ?acme = Some g"
      unfolding sh by blast
    with c2 [of "Some ?acme" later g] op show ?thesis by (simp add: or_empty_def)
  qed
  note neg = cnpj_negative_examples [of L]
  show ?thesis
    apply (intro conjI impI)
    subgoal using c1 by blast
    subgoal using c2 by blast
    subgoal using c3 by blast
    subgoal using c4 by blast
    subgoal using c4 by blast
    subgoal using c4 by blast
    subgoal using c5 by blast
    subgoal using neg(1) by blast
    subgoal by (rule neg(2))
    subgoal by (rule neg(3))
    subgoal using c6 by blast
    subgoal using c7 by blast
    subgoal using c8 by blast
    done
qed

theorem extract_company_name_first_match_witness:
  "extract_company_name_from_bytes header_lib [4] = Inr None
   \<and> cnpj_search header_lib padded_page = Some (cps ''ACME LTDA  '')
   \<and> extract_company_name_from_bytes header_lib [1] = Inr (Some (cps ''ACME LTDA''))
   \<and> extract_company_name_from_bytes header_lib [3] = Inr (Some (cps ''ACME LTDA''))
   \<and> \<not> unicode_decimal header_lib 97
   \<and> rx_match (cnpj_pattern header_lib) (cps ''CNPJ: 1a.345.678 - ACME LTDA'') = None
   \<and> cnpj_search header_lib (cps ''CNPJ: 1a.345.678 - ACME LTDA'') = None
   \<and> extract_company_name_from_bytes sample_lib [5] = Inr (Some (cps ''ACME LTDA''))
   \<and> extract_company_name_from_bytes sample_lib [6] = Inr (Some (strip (cps ''ACME LTDA'')))"
proof -
  have o5: "pdfplumber_open sample_lib [5] = Inr [Inr (Some header_page), Inl ''PageError'']"
    and o6: "pdfplumber_open sample_lib [6]
               = Inr [Inr (Some (cps ''sem cadastro'')), Inr (Some acme_page)]"
    by (simp_all add: sample_lib_def sample_pages_def)
  have nd: "\<not> unicode_decimal header_lib 97" by (simp add: header_lib_def)
  have none_h: "cnpj_search header_lib (cps ''sem cadastro'') = None"
    "cnpj_search header_lib [] = None"
    by (simp_all add: cnpj_search_def cnpj_pattern_def lit_def cps_def)
  have n4: "\<forall>p\<in>set (take 2 [Inr (Some (cps ''sem cadastro'')), Inr None,
                               Inr (Some header_page) :: string page]).
              \<exists>t. p = Inr t \<and> cnpj_search header_lib (or_empty t) = None"
    by (simp add: or_empty_def none_h numeral_2_eq_2)
  have w1: "extract_company_name_from_bytes header_lib [4] = Inr None"
    by (rule extract_company_name_first_match
        [where L = header_lib and b = "[4]"
          and pages = "[Inr (Some (cps ''sem cadastro'')), Inr None, Inr (Some header_page)]",
          THEN conjunct1, THEN mp])
      (use header_open(4) n4 in blast)
  have c67: "67 \<notin> set (cps ''Emitido por X '')" by (simp add: cps_def)
  obtain rh where rh: "cnpj_pattern header_lib = One (\<lambda>x. x = 67) # rh"
    using cnpj_pattern_head by blast
  obtain rs where rs: "cnpj_pattern sample_lib = One (\<lambda>x. x = 67) # rs"
    using cnpj_pattern_head by blast
  have pshape: "padded_page = cps ''Emitido por X '' @ cps ''CNPJ:'' @ [32]
        @ [49, 50, 46, 51, 52, 53, 46, 54, 55, 56] @ [32] @ [45] @ [32, 32, 32] @ cps ''ACME LTDA''
        @ [32, 32] @ ([10] @ cps ''Certidao'')"
    by (simp add: padded_page_def cps_def)
  have hshape: "header_page = cps ''Emitido por X '' @ cps ''CNPJ:'' @ [32]
        @ [49, 50, 46, 51, 52, 53, 46, 54, 55, 56] @ [32] @ [45] @ [32] @ cps ''ACME LTDA''
        @ [] @ ([10] @ cps ''Certidao'')"
    by (simp add: header_page_def cps_def)
  have pfirst: "\<forall>i<length (cps ''Emitido por X '').
      rx_match (cnpj_pattern header_lib) (drop i padded_page) = None"
    using no_match_before_literal [OF rh c67] unfolding pshape by blast
  have hfirst: "\<forall>i<length (cps ''Emitido por X '').
      rx_match (cnpj_pattern header_lib) (drop i header_page) = None"
    using no_match_before_literal [OF rh c67] unfolding hshape by blast
  have side: "(\<forall>c\<in>set [32]. is_space c) \<and> (\<forall>c\<in>set [32, 32, 32]. is_space c)
      \<and> (\<forall>d\<in>set [49, 50, 51, 52, 53, 54, 55, 56::nat]. 48 \<le> d \<and> d \<le> 57)
      \<and> cps ''ACME LTDA'' \<noteq> [] \<and> 10 \<notin> set (cps ''ACME LTDA'')
      \<and> \<not> is_space (hd (cps ''ACME LTDA'')) \<and> \<not> is_space (last (cps ''ACME LTDA''))
      \<and> (\<forall>c\<in>set [32, 32]. is_space c \<and> c \<noteq> 10)
      \<and> (\<forall>c\<in>set ([]::nat list). is_space c \<and> c \<noteq> 10)
      \<and> hd ([10] @ cps ''Certidao'') = 10"
    by (simp add: is_space_def cps_def)
  have p4: "cnpj_search header_lib padded_page = Some (cps ''ACME LTDA'' @ [32, 32])
          \<and> (pdfplumber_open header_lib [1] = Inr (Inr (Some padded_page) # [Inl ''PageError''])
               \<longrightarrow> extract_company_name_from_bytes header_lib [1] = Inr (Some (cps ''ACME LTDA'')))
          \<and> (pdfplumber_open header_lib [1]
                 = Inr (Inr None # Inr (Some padded_page) # [Inl ''PageError''])
               \<and> cnpj_search header_lib (or_empty None) = None
               \<longrightarrow> extract_company_name_from_bytes header_lib [1] = Inr (Some (cps ''ACME LTDA'')))"
    by (rule extract_company_name_first_match
        [where L = header_lib and b = "[1]" and ?ws1.0 = "[32]" and ?ws2.0 = "[32]"
          and ?ws3.0 = "[32, 32, 32]"
          and ?d1.0 = 49 and ?d2.0 = 50 and ?d3.0 = 51 and ?d4.0 = 52 and ?d5.0 = 53
          and ?d6.0 = 54 and ?d7.0 = 55 and ?d8.0 = 56 and name = "cps ''ACME LTDA''"
          and trail = "[32, 32]" and rest = "[10] @ cps ''Certidao''" and tx = padded_page
          and pre = "cps ''Emitido por X ''" and later = "[Inl ''PageError'']" and ?t1.0 = None,
          THEN conjunct2, THEN conjunct2, THEN conjunct2, THEN conjunct1, THEN mp])
      (use side pshape pfirst in blast)
  have h4: "cnpj_search header_lib header_page = Some (cps ''ACME LTDA'' @ [])
          \<and> (pdfplumber_open header_lib [3] = Inr (Inr (Some header_page) # [Inl ''PageError''])
               \<longrightarrow> extract_company_name_from_bytes header_lib [3] = Inr (Some (cps ''ACME LTDA'')))
          \<and> (pdfplumber_open header_lib [3]
                 = Inr (Inr None # Inr (Some header_page) # [Inl ''PageError''])
               \<and> cnpj_search header_lib (or_empty None) = None
               \<longrightarrow> extract_company_name_from_bytes header_lib [3] = Inr (Some (cps ''ACME LTDA'')))"
    by (rule extract_company_name_first_match
        [where L = header_lib and b = "[3]" and ?ws1.0 = "[32]" and ?ws2.0 = "[32]"
          and ?ws3.0 = "[32]"
          and ?d1.0 = 49 and ?d2.0 = 50 and ?d3.0 = 51 and ?d4.0 = 52 and ?d5.0 = 53
          and ?d6.0 = 54 and ?d7.0 = 55 and ?d8.0 = 56 and name = "cps ''ACME LTDA''"
          and trail = "[]" and rest = "[10] @ cps ''Certidao''" and tx = header_page
          and pre = "cps ''Emitido por X ''" and later = "[Inl ''PageError'']" and ?t1.0 = None,
          THEN conjunct2, THEN conjunct2, THEN conjunct2, THEN conjunct1, THEN mp])
      (use side hshape hfirst in blast)
  from p4 have w2: "cnpj_search header_lib padded_page = Some (cps ''ACME LTDA  '')"
    by (simp add: cps_def)
  from p4 header_open(1)
  have w3: "extract_company_name_from_bytes header_lib [1] = Inr (Some (cps ''ACME LTDA''))"
    by simp
  from h4 header_open(3) none_h(2)
  have w4: "extract_company_name_from_bytes header_lib [3] = Inr (Some (cps ''ACME LTDA''))"
    by (simp add: or_empty_def)
  have side5: "(\<forall>c\<in>set [32]. is_space c \<and> \<not> unicode_decimal header_lib c) \<and> \<not> is_space 49
      \<and> (\<exists>d\<in>set [49, 97, 51, 52, 53, 54, 55, 56::nat].
            \<not> (48 \<le> d \<and> d \<le> 57) \<and> \<not> unicode_decimal header_lib d)"
    by (simp add: is_space_def header_lib_def)
  have "rx_match (cnpj_pattern header_lib)
      (cps ''CNPJ:'' @ [32] @ [49, 97, 46, 51, 52, 53, 46, 54, 55, 56] @ cps '' - ACME LTDA'') = None"
    by (rule extract_company_name_first_match
        [where L = header_lib and ?ws1.0 = "[32]"
          and ?d1.0 = 49 and ?d2.0 = 97 and ?d3.0 = 51 and ?d4.0 = 52 and ?d5.0 = 53
          and ?d6.0 = 54 and ?d7.0 = 55 and ?d8.0 = 56 and rest = "cps '' - ACME LTDA''",
          THEN conjunct2, THEN conjunct2, THEN conjunct2, THEN conjunct2, THEN conjunct1, THEN mp])
      (use side5 in blast)
  then have w5: "rx_match (cnpj_pattern header_lib) (cps ''CNPJ: 1a.345.678 - ACME LTDA'') = None"
    by (simp add: cps_def)
  have w6: "cnpj_search header_lib (cps ''CNPJ: 1a.345.678 - ACME LTDA'') = None"
    by (rule extract_company_name_first_match [where L = header_lib, THEN conjunct2, THEN conjunct2, THEN conjunct2, THEN conjunct2, THEN conjunct2, THEN conjunct1, THEN mp]) (rule nd)
  have sfirst: "\<forall>i<length (cps ''Emitido por X '').
      rx_match (cnpj_pattern sample_lib)
        (drop i (cps ''Emitido por X '' @ cps ''CNPJ: 12.345.678 - ACME LTDA'' @ [10]
                   @ cps ''Certidao'')) = None"
    using no_match_before_literal [OF rs c67] by blast
  have o5': "pdfplumber_open sample_lib [5]
      = Inr (Inr (Some (cps ''Emitido por X '' @ cps ''CNPJ: 12.345.678 - ACME LTDA'' @ [10]
                          @ cps ''Certidao'')) # [Inl ''PageError''])"
    using o5 by (simp add: header_page_def)
  have w7: "extract_company_name_from_bytes sample_lib [5] = Inr (Some (cps ''ACME LTDA''))"
    by (rule extract_company_name_first_match
        [where L = sample_lib and b = "[5]" and pre = "cps ''Emitido por X ''"
          and post = "cps ''Certidao''" and later = "[Inl ''PageError'']",
          THEN conjunct2, THEN conjunct2, THEN conjunct2, THEN conjunct2, THEN conjunct2, THEN conjunct2, THEN conjunct2, THEN conjunct2, THEN conjunct1, THEN mp])
      (use o5' sfirst in blast)
  have s6: "cnpj_search sample_lib (or_empty (Some (cps ''sem cadastro''))) = None
      \<and> cnpj_search sample_lib (or_empty (Some acme_page)) = Some (cps ''ACME LTDA'')"
    by (simp add: or_empty_def name_none name_acme)
  have w8: "extract_company_name_from_bytes sample_lib [6]
      = Inr (Some (strip (cps ''ACME LTDA'')))"
    by (rule extract_company_name_first_match
        [where L = sample_lib and b = "[6]" and ?t1.0 = "Some (cps ''sem cadastro'')"
          and ?t2.0 = "Some acme_page" and later = "[]" and g = "cps ''ACME LTDA''",
          THEN conjunct2, THEN conjunct2, THEN conjunct1, THEN mp])
      (use o6 s6 in blast)
  from w1 w2 w3 w4 nd w5 w6 w7 w8 show ?thesis by blast
qed

section \<open>Properties of the filter\<close>

text \<open>
  Claim C7. With an empty list of terms \<open>filter_results\<close> returns the records
  unchanged; otherwise it keeps, in order, exactly the records whose company name in
  lower case contains at least one of the terms in lower case as a substring.
\<close>

theorem filter_results_keeps_matching:
  "filter_results L results [] = results
   \<and> (ts \<noteq> [] \<longrightarrow>
        filter_results L results ts
          = filter (\<lambda>r. \<exists>t\<in>set ts. sublist (str_lower L t) (str_lower L (empresa r))) results)
   \<and> (ts \<noteq> [] \<longrightarrow>
        (r \<in> set (filter_results L results ts) \<longleftrightarrow>
           r \<in> set results
           \<and> (\<exists>t\<in>set ts. \<exists>a c. str_lower L (empresa r) = a @ str_lower L t @ c)))"
proof -
  have e: "filter_results L results [] = results"
    by (simp add: filter_results_def)
  have f: "filter_results L results ts
          = filter (\<lambda>r. \<exists>t\<in>set ts. sublist (str_lower L t) (str_lower L (empresa r))) results"
    if "ts \<noteq> []"
    using that by (simp add: filter_results_def list_ex_iff py_in_sublist)
  have m: "r \<in> set (filter_results L results ts) \<longleftrightarrow>
           r \<in> set results
           \<and> (\<exists>t\<in>set ts. \<exists>a c. str_lower L (empresa r) = a @ str_lower L t @ c)"
    if "ts \<noteq> []"
    unfolding f [OF that] sublist_def by simp
  from e f m show ?thesis by blast
qed

theorem filter_results_keeps_matching_witness:
  "[cps ''acme''] \<noteq> []
   \<and> filter_results sample_lib [acme_result (cps ''a.pdf''), beta_result] [] 
       = [acme_result (cps ''a.pdf''), beta_result]
   \<and> filter_results sample_lib [acme_result (cps ''a.pdf''), beta_result] [cps ''acme'']
       = filter (\<lambda>r. \<exists>t\<in>set [cps ''acme''].
                    sublist (str_lower sample_lib t) (str_lower sample_lib (empresa r)))
           [acme_result (cps ''a.pdf''), beta_result]
   \<and> filter_results sample_lib [acme_result (cps ''a.pdf''), beta_result] [cps ''acme'']
       = [acme_result (cps ''a.pdf'')]
   \<and> acme_result (cps ''a.pdf'')
       \<in> set (filter_results sample_lib [acme_result (cps ''a.pdf''), beta_result] [cps ''acme''])"
proof -
  have ne: "[cps ''acme''] \<noteq> []" by simp
  have v: "filter_results sample_lib [acme_result (cps ''a.pdf''), beta_result] [cps ''acme'']
       = [acme_result (cps ''a.pdf'')]"
    by (simp add: filter_results_def sample_lib_def ascii_lower_def acme_result_def
        beta_result_def cps_def)
  note T = filter_results_keeps_matching
    [of sample_lib "[acme_result (cps ''a.pdf''), beta_result]" "[cps ''acme'']"
      "acme_result (cps ''a.pdf'')"]
  from T ne have "filter_results sample_lib [acme_result (cps ''a.pdf''), beta_result] [] 
       = [acme_result (cps ''a.pdf''), beta_result]"
    and "filter_results sample_lib [acme_result (cps ''a.pdf''), beta_result] [cps ''acme'']
       = filter (\<lambda>r. \<exists>t\<in>set [cps ''acme''].
                    sublist (str_lower sample_lib t) (str_lower sample_lib (empresa r)))
           [acme_result (cps ''a.pdf''), beta_result]"
    by blast+
  with ne v show ?thesis by simp
qed

section \<open>Properties of the batch\<close>

lemma handle_completed_submitted:
  assumes "submitted L zf fut"
  shows "handle_completed zf st fut =
           st\<lparr>all_results := all_results st @ rec_of fut,
              matched_files := matched_files st @ mat_of zf fut,
              unmatched_files := unmatched_files st @ unm_of zf fut,
              processed := processed st + 1\<rparr>"
proof -
  from assms obtain b where b: "zf_read zf (snd fut) = Some b" "fst fut = executor_submit L b"
    by (auto simp: submitted_def)
  obtain name r p where res: "process_pdf L b = (name, r, p)"
    by (cases "process_pdf L b") auto
  show ?thesis
    using b res
    by (cases "truthy name")
      (simp_all add: handle_completed_def rec_of_def mat_of_def unm_of_def executor_submit_def
        Let_def)
qed

lemma foldl_handle_completed:
  assumes "\<forall>fut\<in>set cs. submitted L zf fut"
  shows "foldl (handle_completed zf) st cs =
           st\<lparr>all_results := all_results st @ concat (map rec_of cs),
              matched_files := matched_files st @ concat (map (mat_of zf) cs),
              unmatched_files := unmatched_files st @ concat (map (unm_of zf) cs),
              processed := processed st + length cs\<rparr>"
  using assms
proof (induction cs arbitrary: st)
  case Nil
  then show ?case by simp
next
  case (Cons fut cs)
  then have "submitted L zf fut" and rest: "\<forall>fut\<in>set cs. submitted L zf fut" by simp_all
  then show ?case
    by (simp add: handle_completed_submitted [of L zf fut] Cons.IH [OF rest])
qed

lemma zf_read_member:
  assumes "info \<in> set zf"
  shows "\<exists>b. zf_read zf (fst info) = Some b"
proof -
  have "fst info \<in> fst ` set (rev zf)" using assms by force
  then have "map_of (rev zf) (fst info) \<noteq> None" by (simp only: map_of_eq_None_iff) simp
  then show ?thesis by (auto simp: zf_read_def)
qed

lemma submit_all_eq:
  assumes "set infos \<subseteq> set zf"
  shows "submit_all L zf infos = Some (map (future_of L zf) infos)"
  using assms
proof (induction infos)
  case Nil
  then show ?case by simp
next
  case (Cons info infos)
  from Cons.prems zf_read_member [of info zf] obtain b where b: "zf_read zf (fst info) = Some b"
    by auto
  with Cons show ?case by (simp add: future_of_def)
qed

lemma future_of_submitted:
  "info \<in> set zf \<Longrightarrow> submitted L zf (future_of L zf info)"
  using zf_read_member [of info zf] by (auto simp: submitted_def future_of_def)

lemma pdf_files_subset: "set (pdf_files L zf) \<subseteq> set zf"
  by (auto simp: pdf_files_def)

lemma as_completed_mset:
  assumes "completion_order (length fs) order"
  shows "mset (as_completed fs order) = mset fs"
proof -
  have "mset (as_completed fs order) = image_mset (\<lambda>i. fs ! i) (mset order)"
    by (simp add: as_completed_def)
  also have "\<dots> = image_mset (\<lambda>i. fs ! i) (mset [0..<length fs])"
    using assms by (simp add: completion_order_def)
  also have "\<dots> = mset (map (\<lambda>i. fs ! i) [0..<length fs])" by simp
  also have "\<dots> = mset fs" by (simp add: map_nth)
  finally show ?thesis .
qed

text \<open>The run, in closed form: the lists are those of the completed futures, in their order.\<close>

lemma processamento_eq:
  assumes "completion_order (length (pdf_files L zf)) order"
  obtains cs where
    "mset cs = mset (map (future_of L zf) (pdf_files L zf))"
    "processamento L zf order =
       Some \<lparr>all_results = concat (map rec_of cs),
             matched_files = concat (map (mat_of zf) cs),
             unmatched_files = concat (map (unm_of zf) cs),
             errors = [],
             processed = length cs\<rparr>"
proof -
  let ?fs = "map (future_of L zf) (pdf_files L zf)"
  let ?cs = "as_completed ?fs order"
  have sub: "submit_all L zf (pdf_files L zf) = Some ?fs"
    by (rule submit_all_eq [OF pdf_files_subset])
  have ms: "mset ?cs = mset ?fs"
    using assms by (intro as_completed_mset) simp
  then have "set ?cs = set ?fs" by (rule mset_eq_setD)
  then have "\<forall>fut\<in>set ?cs. submitted L zf fut"
    using pdf_files_subset [of L zf] by (auto intro: future_of_submitted)
  then have "foldl (handle_completed zf) empty_batch ?cs =
      \<lparr>all_results = concat (map rec_of ?cs),
       matched_files = concat (map (mat_of zf) ?cs),
       unmatched_files = concat (map (unm_of zf) ?cs),
       errors = [],
       processed = length ?cs\<rparr>"
    by (simp add: foldl_handle_completed [of _ L zf] empty_batch_def)
  then have "processamento L zf order =
       Some \<lparr>all_results = concat (map rec_of ?cs),
             matched_files = concat (map (mat_of zf) ?cs),
             unmatched_files = concat (map (unm_of zf) ?cs),
             errors = [],
             processed = length ?cs\<rparr>"
    by (simp add: processamento_def sub)
  with ms that show thesis by blast
qed

lemma completed_futures:
  assumes "mset cs = mset (map (future_of L zf) (pdf_files L zf))"
  shows "set cs = future_of L zf ` set (pdf_files L zf)"
    and "\<forall>fut\<in>set cs. submitted L zf fut"
    and "mset (map snd cs) = mset (map fst (pdf_files L zf))"
    and "length cs = length (pdf_files L zf)"
    and "length (filter P cs) = length (filter (\<lambda>info. P (future_of L zf info)) (pdf_files L zf))"
proof -
  from assms have "set cs = set (map (future_of L zf) (pdf_files L zf))" by (rule mset_eq_setD)
  then show s: "set cs = future_of L zf ` set (pdf_files L zf)" by simp
  then show "\<forall>fut\<in>set cs. submitted L zf fut"
    using pdf_files_subset [of L zf] by (auto intro: future_of_submitted)
  have "mset (map snd cs) = image_mset snd (mset cs)" by simp
  also have "\<dots> = mset (map snd (map (future_of L zf) (pdf_files L zf)))"
    by (simp only: assms mset_map)
  also have "map snd (map (future_of L zf) (pdf_files L zf)) = map fst (pdf_files L zf)"
    by (simp add: future_of_def split: option.splits)
  finally show "mset (map snd cs) = mset (map fst (pdf_files L zf))" .
  from assms have "size (mset cs) = size (mset (map (future_of L zf) (pdf_files L zf)))" by simp
  then show "length cs = length (pdf_files L zf)" by simp
  have "length (filter P cs) = size (filter_mset P (mset cs))"
    by (simp only: mset_filter [symmetric] size_mset)
  also have "\<dots> = size (filter_mset P (mset (map (future_of L zf) (pdf_files L zf))))"
    by (simp only: assms)
  also have "\<dots> = length (filter P (map (future_of L zf) (pdf_files L zf)))"
    by (simp only: mset_filter [symmetric] size_mset)
  also have "\<dots> = length (filter (\<lambda>info. P (future_of L zf info)) (pdf_files L zf))"
    by (simp add: filter_map comp_def)
  finally show "length (filter P cs)
      = length (filter (\<lambda>info. P (future_of L zf info)) (pdf_files L zf))" .
qed

lemma lists_partition:
  assumes "\<forall>fut\<in>set cs. submitted L zf fut"
  shows "mset (map filename (concat (map rec_of cs))) + mset (map fst (concat (map (unm_of zf) cs)))
           = mset (map snd cs)"
    and "map fst (concat (map (mat_of zf) cs))
           = map (\<lambda>r. empresa r @ cps ''.pdf'') (concat (map rec_of cs))"
    and "length (concat (map rec_of cs)) + length (concat (map (unm_of zf) cs)) = length cs"
  using assms
proof (induction cs)
  case Nil
  {
    case 1 show ?case by simp
  next
    case 2 show ?case by simp
  next
    case 3 show ?case by simp
  }
next
  case (Cons fut cs)
  {
    case 1
    then have f: "submitted L zf fut" and r: "\<forall>fut\<in>set cs. submitted L zf fut" by simp_all
    from f obtain b where b: "zf_read zf (snd fut) = Some b" "fst fut = executor_submit L b"
      by (auto simp: submitted_def)
    show ?case using Cons.IH(1) [OF r] b
      by (auto simp: rec_of_def unm_of_def executor_submit_def split: prod.splits)
  next
    case 2
    then have f: "submitted L zf fut" and r: "\<forall>fut\<in>set cs. submitted L zf fut" by simp_all
    from f obtain b where b: "zf_read zf (snd fut) = Some b" "fst fut = executor_submit L b"
      by (auto simp: submitted_def)
    show ?case using Cons.IH(2) [OF r] b
      by (auto simp: rec_of_def mat_of_def executor_submit_def split: prod.splits)
  next
    case 3
    then have f: "submitted L zf fut" and r: "\<forall>fut\<in>set cs. submitted L zf fut" by simp_all
    from f obtain b where b: "zf_read zf (snd fut) = Some b" "fst fut = executor_submit L b"
      by (auto simp: submitted_def)
    show ?case using Cons.IH(3) [OF r] b
      by (auto simp: rec_of_def unm_of_def executor_submit_def split: prod.splits)
  }
qed



lemma has_name_future_of: "has_name (future_of L zf info) \<longleftrightarrow> truthy (entry_name L zf info)"
  by (auto simp: has_name_def future_of_def entry_name_def executor_submit_def truthy_def
      split: option.splits prod.splits)

lemma matched_of_records:
  assumes "\<forall>fut\<in>set cs. submitted L zf fut"
  shows "list_all2 (\<lambda>m r. fst m = empresa r @ cps ''.pdf'' \<and> zf_read zf (filename r) = Some (snd m))
           (concat (map (mat_of zf) cs)) (concat (map rec_of cs))"
    and "length (concat (map (mat_of zf) cs)) = length (filter has_name cs)"
  using assms
proof (induction cs)
  case Nil
  {
    case 1 show ?case by simp
  next
    case 2 show ?case by simp
  }
next
  case (Cons fut cs)
  {
    case 1
    then have f: "submitted L zf fut" and r: "\<forall>fut\<in>set cs. submitted L zf fut" by simp_all
    from f obtain b where b: "zf_read zf (snd fut) = Some b" "fst fut = executor_submit L b"
      by (auto simp: submitted_def)
    obtain name rp pp where res: "process_pdf L b = (name, rp, pp)"
      by (cases "process_pdf L b") auto
    have "list_all2 (\<lambda>m r. fst m = empresa r @ cps ''.pdf'' \<and> zf_read zf (filename r) = Some (snd m))
           (mat_of zf fut) (rec_of fut)"
      using b res by (simp add: mat_of_def rec_of_def executor_submit_def)
    with Cons.IH(1) [OF r] show ?case by (simp add: list_all2_appendI)
  next
    case 2
    then have f: "submitted L zf fut" and r: "\<forall>fut\<in>set cs. submitted L zf fut" by simp_all
    from f obtain b where b: "zf_read zf (snd fut) = Some b" "fst fut = executor_submit L b"
      by (auto simp: submitted_def)
    obtain name rp pp where res: "process_pdf L b = (name, rp, pp)"
      by (cases "process_pdf L b") auto
    have "length (mat_of zf fut) = (if has_name fut then 1 else 0)"
      using b res by (simp add: mat_of_def has_name_def executor_submit_def)
    with Cons.IH(2) [OF r] show ?case by simp
  }
qed







lemma falsy_entry_unmatched:
  assumes cs: "mset cs = mset (map (future_of L zf) (pdf_files L zf))"
    and info: "info \<in> set (pdf_files L zf)"
    and b: "zf_read zf (fst info) = Some b"
    and falsy: "\<not> truthy (fst (process_pdf L b))"
  shows "(fst info, b) \<in> set (concat (map (unm_of zf) cs))"
    and "fst info \<notin> filename ` set (concat (map rec_of cs))"
proof -
  let ?fut = "(executor_submit L b, fst info)"
  have "future_of L zf info = ?fut" using b by (simp add: future_of_def)
  with completed_futures(1) [OF cs] info have mem: "?fut \<in> set cs" by force
  obtain name rp pp where res: "process_pdf L b = (name, rp, pp)"
    by (cases "process_pdf L b") auto
  have "unm_of zf ?fut = [(fst info, b)]"
    using b falsy res by (simp add: unm_of_def executor_submit_def)
  with mem show "(fst info, b) \<in> set (concat (map (unm_of zf) cs))" by force
  show "fst info \<notin> filename ` set (concat (map rec_of cs))"
  proof
    assume "fst info \<in> filename ` set (concat (map rec_of cs))"
    then obtain fut r where fut: "fut \<in> set cs" "r \<in> set (rec_of fut)" "filename r = fst info"
      by auto
    from fut(2,3) have n: "snd fut = fst info"
      by (auto simp: rec_of_def split: sum.splits prod.splits if_splits)
    from completed_futures(2) [OF cs] fut(1) have "submitted L zf fut" by blast
    with n b have "fst fut = executor_submit L b" by (auto simp: submitted_def)
    with falsy res have "rec_of fut = []"
      by (simp add: rec_of_def executor_submit_def)
    with fut(2) show False by simp
  qed
qed

lemma record_has_name:
  assumes cs: "mset cs = mset (map (future_of L zf) (pdf_files L zf))"
    and r: "r \<in> set (concat (map rec_of cs))"
  shows "empresa r \<noteq> []"
    and "\<exists>b. zf_read zf (filename r) = Some b \<and> fst (process_pdf L b) = Some (empresa r)"
proof -
  from r obtain fut where fut: "fut \<in> set cs" "r \<in> set (rec_of fut)" by auto
  from completed_futures(2) [OF cs] fut(1) obtain b where
    b: "zf_read zf (snd fut) = Some b" "fst fut = executor_submit L b"
    by (auto simp: submitted_def)
  obtain name rp pp where res: "process_pdf L b = (name, rp, pp)"
    by (cases "process_pdf L b") auto
  from fut(2) b(2) res have t: "truthy name"
    and req: "r = \<lparr>empresa = or_empty name, rf = rp, pgfn = pp, filename = snd fut\<rparr>"
    by (auto simp: rec_of_def executor_submit_def split: if_splits)
  from t obtain s where s: "name = Some s" "s \<noteq> []"
    by (cases name) (auto simp: truthy_def)
  from req s show "empresa r \<noteq> []" by (simp add: or_empty_def)
  from req s b(1) res
  show "\<exists>b. zf_read zf (filename r) = Some b \<and> fst (process_pdf L b) = Some (empresa r)"
    by (simp add: or_empty_def)
qed

lemma read_pages_raises:
  assumes "Inl e \<in> set pages"
  shows "\<exists>e'. read_pages pages acc = Inl e'"
  using assms
proof (induction pages arbitrary: acc)
  case Nil
  then show ?case by simp
next
  case (Cons p ps)
  then show ?case by (cases p) auto
qed

lemma process_pdf_raise:
  "process_pdf_body L b = Inl e \<Longrightarrow> process_pdf L b = (None, False, False)"
  by (simp add: process_pdf_def)

subsection \<open>The sample runs\<close>

lemma order_ok: "completion_order 5 [2, 0, 4, 1, 3]"
  by (simp add: completion_order_def upt_rec eval_nat_numeral)

lemma sample_pdf_files:
  "pdf_files sample_lib sample_archive =
     [(cps ''a.pdf'', [1]), (cps ''B.PDF'', [1]), (cps ''c.pdf'', [2]), (cps ''d.pdf'', [0]),
      (cps ''e.pdf'', [3])]"
  by (simp add: pdf_files_def sample_lib_def sample_archive_def ascii_lower_def cps_def
      suffix_to_prefix)

lemma sample_order:
  "completion_order (length (pdf_files sample_lib sample_archive)) [2, 0, 4, 1, 3]"
proof -
  have "length (pdf_files sample_lib sample_archive) = 5" by (simp add: sample_pdf_files)
  then show ?thesis by (simp only: order_ok)
qed

lemma sample_zf_read:
  "zf_read sample_archive (cps ''a.pdf'') = Some [1]"
  "zf_read sample_archive (cps ''B.PDF'') = Some [1]"
  "zf_read sample_archive (cps ''c.pdf'') = Some [2]"
  "zf_read sample_archive (cps ''d.pdf'') = Some [0]"
  "zf_read sample_archive (cps ''e.pdf'') = Some [3]"
  by (simp_all add: zf_read_def sample_archive_def cps_def)

lemma sample_run: "processamento sample_lib sample_archive [2, 0, 4, 1, 3] = Some sample_batch"
  by (simp add: processamento_def sample_pdf_files sample_zf_read executor_submit_def
      sample_process_pdf as_completed_def handle_completed_def empty_batch_def truthy_def
      or_empty_def Let_def sample_batch_def acme_result_def cps_append cps_eq_Nil)

lemma corrupt_pdf_files:
  "pdf_files sample_lib corrupt_archive = [(cps ''ok.pdf'', [1]), (cps ''bad.pdf'', [0])]"
  by (simp add: pdf_files_def sample_lib_def corrupt_archive_def ascii_lower_def cps_def
      suffix_to_prefix)

lemma corrupt_zf_read:
  "zf_read corrupt_archive (cps ''ok.pdf'') = Some [1]"
  "zf_read corrupt_archive (cps ''bad.pdf'') = Some [0]"
  by (simp_all add: zf_read_def corrupt_archive_def cps_def)

lemma corrupt_run: "processamento sample_lib corrupt_archive [0, 1] = Some corrupt_batch"
  by (simp add: processamento_def corrupt_pdf_files corrupt_zf_read executor_submit_def
      sample_process_pdf as_completed_def handle_completed_def empty_batch_def truthy_def
      or_empty_def Let_def corrupt_batch_def acme_result_def cps_append cps_eq_Nil)












subsection \<open>The claims about the batch\<close>

text \<open>
  Claim C1, as stated: a qualifying entry whose processing raises a read error is added
  to neither list and gives no record, so that the number of records plus the number of
  unmatched files is the number of qualifying entries minus the number of entries that
  raised. It fails on an archive with one readable and one unreadable document: the
  unreadable one is in \<open>unmatched_files\<close>, and the two counts add up to the number
  of qualifying entries.
\<close>

theorem failed_pdf_excluded_from_buckets_counterexample:
  "processamento sample_lib corrupt_archive [0, 1] = Some corrupt_batch
   \<and> process_pdf_body sample_lib [0] = Inl ''PdfReadError''
   \<and> (cps ''bad.pdf'', [0]) \<in> set (unmatched_files corrupt_batch)
   \<and> length (all_results corrupt_batch) + length (unmatched_files corrupt_batch)
       \<noteq> length (pdf_files sample_lib corrupt_archive) - read_failures sample_lib corrupt_archive"
proof -
  have "read_failures sample_lib corrupt_archive = 1"
    using sample_body_ok
    by (simp add: read_failures_def corrupt_pdf_files corrupt_zf_read sample_process_pdf)
  then have d: "length (all_results corrupt_batch) + length (unmatched_files corrupt_batch)
       \<noteq> length (pdf_files sample_lib corrupt_archive) - read_failures sample_lib corrupt_archive"
    by (simp add: corrupt_batch_def corrupt_pdf_files)
  have c: "(cps ''bad.pdf'', [0]) \<in> set (unmatched_files corrupt_batch)"
    by (simp add: corrupt_batch_def)
  from corrupt_run sample_process_pdf(5) c d show ?thesis by blast
qed

text \<open>
  Claim C1, amended: a qualifying entry whose processing raises is caught inside
  \<open>process_pdf\<close>, which returns \<open>(None, False, False)\<close>: the entry gives no
  record and no matched file (every matched file is the file of the record at its
  position, and there are as many as entries with a company name) and is added to
  \<open>unmatched_files\<close> under its original name; the number of records plus the number of
  unmatched files equals the number of qualifying entries, for every order of completion.
\<close>

theorem failed_pdf_goes_to_unmatched:
  assumes "completion_order (length (pdf_files L zf)) order"
  shows "\<exists>st. processamento L zf order = Some st
          \<and> length (all_results st) + length (unmatched_files st) = length (pdf_files L zf)
          \<and> list_all2 (\<lambda>m r. fst m = empresa r @ cps ''.pdf''
                               \<and> zf_read zf (filename r) = Some (snd m))
               (matched_files st) (all_results st)
          \<and> length (matched_files st)
              = length (filter (\<lambda>info. truthy (entry_name L zf info)) (pdf_files L zf))
          \<and> (\<forall>info\<in>set (pdf_files L zf). \<forall>b e.
                zf_read zf (fst info) = Some b \<longrightarrow> process_pdf_body L b = Inl e \<longrightarrow>
                  process_pdf L b = (None, False, False)
                  \<and> \<not> truthy (entry_name L zf info)
                  \<and> (fst info, b) \<in> set (unmatched_files st)
                  \<and> fst info \<notin> filename ` set (all_results st)
                  \<and> (\<forall>i<length (matched_files st).
                        filename (all_results st ! i) \<noteq> fst info))"
proof -
  from processamento_eq [OF assms] obtain cs where
    cs: "mset cs = mset (map (future_of L zf) (pdf_files L zf))"
    and run: "processamento L zf order =
       Some \<lparr>all_results = concat (map rec_of cs),
             matched_files = concat (map (mat_of zf) cs),
             unmatched_files = concat (map (unm_of zf) cs),
             errors = [],
             processed = length cs\<rparr>" by blast
  let ?st = "\<lparr>all_results = concat (map rec_of cs),
             matched_files = concat (map (mat_of zf) cs),
             unmatched_files = concat (map (unm_of zf) cs),
             errors = [],
             processed = length cs\<rparr>"
  note sub = completed_futures(2) [OF cs]
  have len: "length (all_results ?st) + length (unmatched_files ?st) = length (pdf_files L zf)"
    using lists_partition(3) [OF sub] completed_futures(4) [OF cs] by simp
  have corr: "list_all2 (\<lambda>m r. fst m = empresa r @ cps ''.pdf''
                               \<and> zf_read zf (filename r) = Some (snd m))
               (matched_files ?st) (all_results ?st)"
    using matched_of_records(1) [OF sub] by simp
  have "length (matched_files ?st) = length (filter has_name cs)"
    using matched_of_records(2) [OF sub] by simp
  also have "\<dots> = length (filter (\<lambda>info. has_name (future_of L zf info)) (pdf_files L zf))"
    by (rule completed_futures(5) [OF cs])
  finally have cnt: "length (matched_files ?st)
      = length (filter (\<lambda>info. truthy (entry_name L zf info)) (pdf_files L zf))"
    by (simp only: has_name_future_of)
  have bad: "process_pdf L b = (None, False, False)
               \<and> \<not> truthy (entry_name L zf info)
               \<and> (fst info, b) \<in> set (unmatched_files ?st)
               \<and> fst info \<notin> filename ` set (all_results ?st)
               \<and> (\<forall>i<length (matched_files ?st).
                     filename (all_results ?st ! i) \<noteq> fst info)"
    if "info \<in> set (pdf_files L zf)" "zf_read zf (fst info) = Some b"
       "process_pdf_body L b = Inl e" for info b e
  proof -
    from that(3) have v: "process_pdf L b = (None, False, False)"
      by (simp add: process_pdf_def)
    then have f: "\<not> truthy (fst (process_pdf L b))" by (simp add: truthy_def)
    with that(2) have n: "\<not> truthy (entry_name L zf info)" by (simp add: entry_name_def)
    from falsy_entry_unmatched [OF cs that(1,2) f]
    have u: "(fst info, b) \<in> set (unmatched_files ?st)"
      and r: "fst info \<notin> filename ` set (all_results ?st)" by simp_all
    have "filename (all_results ?st ! i) \<noteq> fst info" if "i < length (matched_files ?st)" for i
    proof -
      from corr that have "i < length (all_results ?st)" by (simp add: list_all2_lengthD)
      then have "all_results ?st ! i \<in> set (all_results ?st)" by (rule nth_mem)
      with r show ?thesis by force
    qed
    with v n u r show ?thesis by blast
  qed
  from run len corr cnt bad show ?thesis by blast
qed

theorem failed_pdf_goes_to_unmatched_witness:
  "completion_order (length (pdf_files sample_lib sample_archive)) [2, 0, 4, 1, 3]
   \<and> processamento sample_lib sample_archive [2, 0, 4, 1, 3] = Some sample_batch
   \<and> length (all_results sample_batch) + length (unmatched_files sample_batch)
       = length (pdf_files sample_lib sample_archive)
   \<and> length (matched_files sample_batch)
       = length (filter (\<lambda>info. truthy (entry_name sample_lib sample_archive info))
                   (pdf_files sample_lib sample_archive))
   \<and> (cps ''d.pdf'', [0]) \<in> set (pdf_files sample_lib sample_archive)
   \<and> zf_read sample_archive (cps ''d.pdf'') = Some [0]
   \<and> process_pdf_body sample_lib [0] = Inl ''PdfReadError''
   \<and> process_pdf sample_lib [0] = (None, False, False)
   \<and> (cps ''d.pdf'', [0]) \<in> set (unmatched_files sample_batch)
   \<and> cps ''d.pdf'' \<notin> filename ` set (all_results sample_batch)"
proof -
  note h = sample_order
  have m: "(cps ''d.pdf'', [0]) \<in> set (pdf_files sample_lib sample_archive)"
    by (simp add: sample_pdf_files)
  from failed_pdf_goes_to_unmatched [OF h] obtain st where
    st: "processamento sample_lib sample_archive [2, 0, 4, 1, 3] = Some st"
      "length (all_results st) + length (unmatched_files st)
         = length (pdf_files sample_lib sample_archive)"
      "length (matched_files st)
         = length (filter (\<lambda>info. truthy (entry_name sample_lib sample_archive info))
                     (pdf_files sample_lib sample_archive))"
      "\<forall>info\<in>set (pdf_files sample_lib sample_archive). \<forall>b e.
          zf_read sample_archive (fst info) = Some b \<longrightarrow>
          process_pdf_body sample_lib b = Inl e \<longrightarrow>
            process_pdf sample_lib b = (None, False, False)
            \<and> \<not> truthy (entry_name sample_lib sample_archive info)
            \<and> (fst info, b) \<in> set (unmatched_files st)
            \<and> fst info \<notin> filename ` set (all_results st)
            \<and> (\<forall>i<length (matched_files st). filename (all_results st ! i) \<noteq> fst info)"
    by blast
  from st(1) sample_run have eq: "st = sample_batch" by simp
  from st(4) m sample_zf_read(4) sample_process_pdf(5)
  have "process_pdf sample_lib [0] = (None, False, False)
          \<and> (cps ''d.pdf'', [0]) \<in> set (unmatched_files st)
          \<and> cps ''d.pdf'' \<notin> filename ` set (all_results st)"
    by fastforce
  with h m st(1,2,3) eq sample_zf_read(4) sample_process_pdf(5) show ?thesis by simp
qed

text \<open>
  Claim C2. For every archive and every order of completion, each qualifying entry
  appears in exactly one of the records and the unmatched files (the source names of the
  records together with the names of the unmatched files are the names of the qualifying
  entries, with their multiplicities); \<open>matched_files\<close> and \<open>all_results\<close> have the
  same length, and the name of the i-th matched file is the company name of the i-th
  record followed by \<open>.pdf\<close>.
\<close>

theorem every_entry_in_one_bucket:
  assumes "completion_order (length (pdf_files L zf)) order"
  shows "\<exists>st. processamento L zf order = Some st
          \<and> mset (map filename (all_results st)) + mset (map fst (unmatched_files st))
              = mset (map fst (pdf_files L zf))
          \<and> length (matched_files st) = length (all_results st)
          \<and> map fst (matched_files st) = map (\<lambda>r. empresa r @ cps ''.pdf'') (all_results st)"
proof -
  from processamento_eq [OF assms] obtain cs where
    cs: "mset cs = mset (map (future_of L zf) (pdf_files L zf))"
    and run: "processamento L zf order =
       Some \<lparr>all_results = concat (map rec_of cs),
             matched_files = concat (map (mat_of zf) cs),
             unmatched_files = concat (map (unm_of zf) cs),
             errors = [],
             processed = length cs\<rparr>" by blast
  note sub = completed_futures(2) [OF cs]
  have names: "map fst (concat (map (mat_of zf) cs))
      = map (\<lambda>r. empresa r @ cps ''.pdf'') (concat (map rec_of cs))"
    by (rule lists_partition(2) [OF sub])
  then have "length (map fst (concat (map (mat_of zf) cs)))
      = length (map (\<lambda>r. empresa r @ cps ''.pdf'') (concat (map rec_of cs)))"
    by (rule arg_cong)
  then have len: "length (concat (map (mat_of zf) cs)) = length (concat (map rec_of cs))"
    by (simp only: length_map)
  have part: "mset (map filename (concat (map rec_of cs)))
        + mset (map fst (concat (map (unm_of zf) cs))) = mset (map fst (pdf_files L zf))"
    using lists_partition(1) [OF sub] completed_futures(3) [OF cs] by simp
  from run part len names show ?thesis by simp
qed

theorem every_entry_in_one_bucket_witness:
  "completion_order (length (pdf_files sample_lib sample_archive)) [2, 0, 4, 1, 3]
   \<and> processamento sample_lib sample_archive [2, 0, 4, 1, 3] = Some sample_batch
   \<and> mset (map filename (all_results sample_batch)) + mset (map fst (unmatched_files sample_batch))
       = mset (map fst (pdf_files sample_lib sample_archive))
   \<and> length (matched_files sample_batch) = length (all_results sample_batch)
   \<and> map fst (matched_files sample_batch)
       = map (\<lambda>r. empresa r @ cps ''.pdf'') (all_results sample_batch)"
proof -
  from every_entry_in_one_bucket [OF sample_order] obtain st where
    st: "processamento sample_lib sample_archive [2, 0, 4, 1, 3] = Some st"
      "mset (map filename (all_results st)) + mset (map fst (unmatched_files st))
         = mset (map fst (pdf_files sample_lib sample_archive))"
      "length (matched_files st) = length (all_results st)"
      "map fst (matched_files st) = map (\<lambda>r. empresa r @ cps ''.pdf'') (all_results st)"
    by blast
  from st(1) sample_run have "st = sample_batch" by simp
  with st sample_order show ?thesis by blast
qed

text \<open>
  Claim C8. Every record of a run has a non-empty company name, the one extracted from
  its source file; an entry for which no name is extracted, or whose extracted name
  strips to the empty string, gives no record and is in \<open>unmatched_files\<close>.
\<close>

theorem records_have_company_name:
  assumes "completion_order (length (pdf_files L zf)) order"
  shows "\<exists>st. processamento L zf order = Some st
          \<and> (\<forall>r\<in>set (all_results st). empresa r \<noteq> []
                \<and> (\<exists>b. zf_read zf (filename r) = Some b
                      \<and> fst (process_pdf L b) = Some (empresa r)))
          \<and> (\<forall>info\<in>set (pdf_files L zf). \<forall>b.
                zf_read zf (fst info) = Some b \<longrightarrow>
                fst (process_pdf L b) = None \<or> fst (process_pdf L b) = Some [] \<longrightarrow>
                  (fst info, b) \<in> set (unmatched_files st)
                  \<and> fst info \<notin> filename ` set (all_results st))"
proof -
  from processamento_eq [OF assms] obtain cs where
    cs: "mset cs = mset (map (future_of L zf) (pdf_files L zf))"
    and run: "processamento L zf order =
       Some \<lparr>all_results = concat (map rec_of cs),
             matched_files = concat (map (mat_of zf) cs),
             unmatched_files = concat (map (unm_of zf) cs),
             errors = [],
             processed = length cs\<rparr>" by blast
  let ?st = "\<lparr>all_results = concat (map rec_of cs),
             matched_files = concat (map (mat_of zf) cs),
             unmatched_files = concat (map (unm_of zf) cs),
             errors = [],
             processed = length cs\<rparr>"
  have recs: "\<forall>r\<in>set (all_results ?st). empresa r \<noteq> []
                \<and> (\<exists>b. zf_read zf (filename r) = Some b
                      \<and> fst (process_pdf L b) = Some (empresa r))"
    using record_has_name [OF cs] by simp
  have none: "(fst info, b) \<in> set (unmatched_files ?st)
               \<and> fst info \<notin> filename ` set (all_results ?st)"
    if "info \<in> set (pdf_files L zf)" "zf_read zf (fst info) = Some b"
       "fst (process_pdf L b) = None \<or> fst (process_pdf L b) = Some []" for info b
  proof -
    from that(3) have "\<not> truthy (fst (process_pdf L b))"
      by (auto simp: truthy_def)
    from falsy_entry_unmatched [OF cs that(1,2) this] show ?thesis by simp
  qed
  from run recs none show ?thesis by blast
qed

theorem records_have_company_name_witness:
  "completion_order (length (pdf_files sample_lib sample_archive)) [2, 0, 4, 1, 3]
   \<and> processamento sample_lib sample_archive [2, 0, 4, 1, 3] = Some sample_batch
   \<and> acme_result (cps ''a.pdf'') \<in> set (all_results sample_batch)
   \<and> empresa (acme_result (cps ''a.pdf'')) \<noteq> []
   \<and> (cps ''e.pdf'', [3]) \<in> set (pdf_files sample_lib sample_archive)
   \<and> zf_read sample_archive (cps ''e.pdf'') = Some [3]
   \<and> fst (process_pdf sample_lib [3]) = Some []
   \<and> (cps ''e.pdf'', [3]) \<in> set (unmatched_files sample_batch)
   \<and> cps ''e.pdf'' \<notin> filename ` set (all_results sample_batch)"
proof -
  from records_have_company_name [OF sample_order] obtain st where
    st: "processamento sample_lib sample_archive [2, 0, 4, 1, 3] = Some st"
      "\<forall>r\<in>set (all_results st). empresa r \<noteq> []
          \<and> (\<exists>b. zf_read sample_archive (filename r) = Some b
                \<and> fst (process_pdf sample_lib b) = Some (empresa r))"
      "\<forall>info\<in>set (pdf_files sample_lib sample_archive). \<forall>b.
          zf_read sample_archive (fst info) = Some b \<longrightarrow>
          fst (process_pdf sample_lib b) = None \<or> fst (process_pdf sample_lib b) = Some [] \<longrightarrow>
            (fst info, b) \<in> set (unmatched_files st)
            \<and> fst info \<notin> filename ` set (all_results st)"
    by blast
  from st(1) sample_run have eq: "st = sample_batch" by simp
  have m: "(cps ''e.pdf'', [3]) \<in> set (pdf_files sample_lib sample_archive)"
    by (simp add: sample_pdf_files)
  have n: "fst (process_pdf sample_lib [3]) = Some []"
    by (simp add: sample_process_pdf)
  have a: "acme_result (cps ''a.pdf'') \<in> set (all_results sample_batch)"
    by (simp add: sample_batch_def)
  from st(2) a eq have a': "empresa (acme_result (cps ''a.pdf'')) \<noteq> []" by blast
  from st(3) m sample_zf_read(5) n
  have "(cps ''e.pdf'', [3]) \<in> set (unmatched_files st)
          \<and> cps ''e.pdf'' \<notin> filename ` set (all_results st)"
    by fastforce
  with sample_order st(1) eq a a' m n sample_zf_read(5) show ?thesis by simp
qed

text \<open>
  Claim C9. \<open>process_pdf\<close> returns on every input: when opening the document,
  extracting a page or any other step of its body raises, it returns
  \<open>(None, False, False)\<close>. Consequently the loop over the completed futures never
  takes its \<open>except\<close> branch (it reports no file and counts every entry), and an entry
  whose processing failed is in \<open>unmatched_files\<close>.
\<close>

theorem process_pdf_catches_every_exception:
  "(PdfReader L b = Inl e \<longrightarrow> process_pdf L b = (None, False, False))
   \<and> (PdfReader L b = Inr pages \<and> Inl e \<in> set pages \<longrightarrow> process_pdf L b = (None, False, False))
   \<and> (pdfplumber_open L b = Inl e \<longrightarrow> process_pdf L b = (None, False, False))
   \<and> (process_pdf_body L b = Inl e \<longrightarrow> process_pdf L b = (None, False, False))
   \<and> (completion_order (length (pdf_files L zf)) order \<longrightarrow>
        (\<exists>st. processamento L zf order = Some st
           \<and> errors st = []
           \<and> processed st = length (pdf_files L zf)
           \<and> (\<forall>info\<in>set (pdf_files L zf). \<forall>b' e'.
                 zf_read zf (fst info) = Some b' \<longrightarrow> process_pdf_body L b' = Inl e' \<longrightarrow>
                   (fst info, b') \<in> set (unmatched_files st))))"
proof -
  have reader: "process_pdf L b = (None, False, False)" if "PdfReader L b = Inl e"
    using that by (simp add: process_pdf_def process_pdf_body_def)
  have page: "process_pdf L b = (None, False, False)"
    if "PdfReader L b = Inr pages" "Inl e \<in> set pages"
  proof -
    from read_pages_raises [OF that(2)] obtain e' where "read_pages pages [] = Inl e'" by blast
    with that(1) show ?thesis by (simp add: process_pdf_def process_pdf_body_def)
  qed
  have plumber: "process_pdf L b = (None, False, False)" if "pdfplumber_open L b = Inl e"
    using that by (simp add: process_pdf_def process_pdf_body_def split: sum.splits)
  have body: "process_pdf L b = (None, False, False)" if "process_pdf_body L b = Inl e"
    using that by (rule process_pdf_raise)
  have loop: "\<exists>st. processamento L zf order = Some st
           \<and> errors st = []
           \<and> processed st = length (pdf_files L zf)
           \<and> (\<forall>info\<in>set (pdf_files L zf). \<forall>b' e'.
                 zf_read zf (fst info) = Some b' \<longrightarrow> process_pdf_body L b' = Inl e' \<longrightarrow>
                   (fst info, b') \<in> set (unmatched_files st))"
    if ord: "completion_order (length (pdf_files L zf)) order"
  proof -
    from processamento_eq [OF ord] obtain cs where
      cs: "mset cs = mset (map (future_of L zf) (pdf_files L zf))"
      and run: "processamento L zf order =
         Some \<lparr>all_results = concat (map rec_of cs),
               matched_files = concat (map (mat_of zf) cs),
               unmatched_files = concat (map (unm_of zf) cs),
               errors = [],
               processed = length cs\<rparr>" by blast
    let ?st = "\<lparr>all_results = concat (map rec_of cs),
               matched_files = concat (map (mat_of zf) cs),
               unmatched_files = concat (map (unm_of zf) cs),
               errors = [],
               processed = length cs\<rparr>"
    have bad: "(fst info, b') \<in> set (unmatched_files ?st)"
      if "info \<in> set (pdf_files L zf)" "zf_read zf (fst info) = Some b'"
         "process_pdf_body L b' = Inl e'" for info b' e'
    proof -
      from that(3) have "\<not> truthy (fst (process_pdf L b'))"
        by (simp add: process_pdf_def truthy_def)
      from falsy_entry_unmatched(1) [OF cs that(1,2) this] show ?thesis by simp
    qed
    have "errors ?st = []" "processed ?st = length (pdf_files L zf)"
      using completed_futures(4) [OF cs] by simp_all
    with run bad show ?thesis by blast
  qed
  from reader page plumber body loop show ?thesis by blast
qed

theorem process_pdf_catches_every_exception_witness:
  "PdfReader sample_lib [0] = Inl ''PdfReadError''
   \<and> pdfplumber_open sample_lib [0] = Inl ''PdfReadError''
   \<and> process_pdf_body sample_lib [0] = Inl ''PdfReadError''
   \<and> process_pdf sample_lib [0] = (None, False, False)
   \<and> PdfReader sample_lib [4] = Inr [Inr None, Inl ''PageError'']
   \<and> Inl ''PageError'' \<in> set [Inr None, Inl ''PageError'' :: string page]
   \<and> process_pdf sample_lib [4] = (None, False, False)
   \<and> completion_order (length (pdf_files sample_lib sample_archive)) [2, 0, 4, 1, 3]
   \<and> processamento sample_lib sample_archive [2, 0, 4, 1, 3] = Some sample_batch
   \<and> errors sample_batch = []
   \<and> processed sample_batch = length (pdf_files sample_lib sample_archive)
   \<and> (cps ''d.pdf'', [0]) \<in> set (unmatched_files sample_batch)"
proof -
  have r0: "PdfReader sample_lib [0] = Inl ''PdfReadError''"
    and p0: "pdfplumber_open sample_lib [0] = Inl ''PdfReadError''"
    and r4: "PdfReader sample_lib [4] = Inr [Inr None, Inl ''PageError'']"
    by (simp_all add: sample_lib_def sample_pages_def)
  have m4: "Inl ''PageError'' \<in> set [Inr None, Inl ''PageError'' :: string page]" by simp
  note b0 = sample_process_pdf(5)
  note T0 = process_pdf_catches_every_exception
    [of sample_lib "[0]" "''PdfReadError''" "[]" sample_archive "[2, 0, 4, 1, 3]"]
  note T4 = process_pdf_catches_every_exception
    [of sample_lib "[4]" "''PageError''" "[Inr None, Inl ''PageError'']" sample_archive
      "[2, 0, 4, 1, 3]"]
  from T0 r0 have v0: "process_pdf sample_lib [0] = (None, False, False)" by blast
  from T4 r4 m4 have v4: "process_pdf sample_lib [4] = (None, False, False)" by blast
  from T0 sample_order obtain st where
    st: "processamento sample_lib sample_archive [2, 0, 4, 1, 3] = Some st"
      "errors st = []" "processed st = length (pdf_files sample_lib sample_archive)"
      "\<forall>info\<in>set (pdf_files sample_lib sample_archive). \<forall>b' e'.
          zf_read sample_archive (fst info) = Some b' \<longrightarrow>
          process_pdf_body sample_lib b' = Inl e' \<longrightarrow>
            (fst info, b') \<in> set (unmatched_files st)"
    by blast
  from st(1) sample_run have eq: "st = sample_batch" by simp
  have m: "(cps ''d.pdf'', [0]) \<in> set (pdf_files sample_lib sample_archive)"
    by (simp add: sample_pdf_files)
  from st(4) m sample_zf_read(4) b0
  have u: "(cps ''d.pdf'', [0]) \<in> set (unmatched_files st)" by fastforce
  from r0 p0 b0 v0 r4 m4 v4 sample_order st(1,2,3) u eq show ?thesis by simp
qed



end
